theory Spec2Isabelle
  imports Main "HOL-Library.Word" "HOL-Library.Multiset"
begin

section \<open>Messages of the plugin protocol\<close>

text \<open>
  The protobuf messages are generated code; only the fields that \<^verbatim>\<open>PluginClient.cpp\<close>
  reads or writes are kept. \<^verbatim>\<open>int64\<close> fields are 64-bit words, read as two's complement
  by \<open>sint\<close>; a message field that is not set reads as its default instance, all zero.
\<close>

type_synonym int64_t = "64 word"

type_synonym task_id_t = "32 word"

record Timestamp =
  ts_seconds :: int64_t
  ts_nanos :: "32 word"

record Duration =
  dur_seconds :: int64_t
  dur_nanos :: "32 word"

record TaskInfo =
  task_id :: task_id_t
  start_time :: Timestamp
  elapsed_time :: Duration

datatype Message =
    StartHookRequest "TaskInfo list"
  | EndHookRequest "TaskInfo list"
  | JobMonitorHookRequest task_id_t string

section \<open>Hook events and the client\<close>

text \<open>
  Modelled from the spec: the header \<^verbatim>\<open>crane/PluginClient.h\<close> is not among the sources. It
  declares \<^verbatim>\<open>HookType\<close> (the spec: one of START, END, JOB_MONITOR), \<^verbatim>\<open>HookEvent\<close> (a type
  tag and an owning pointer to the payload; \<open>None\<close> is the null pointer) and the members of
  the client. The event queue is the concurrent queue of a third-party library; it is a
  list, front first. An Isabelle name cannot end in an underscore, so the members
  \<^verbatim>\<open>m_thread_stop_\<close>, \<^verbatim>\<open>m_event_queue_\<close> and the private functions are written without
  the last underscore.
\<close>

datatype HookType = START | END | JOB_MONITOR

record HookEvent =
  type :: HookType
  msg :: "Message option"

record PluginClient =
  m_thread_stop :: bool
  m_event_queue :: "HookEvent list"

text \<open>
  The wall clock is the environment's: \<open>clock k\<close> is what the \<open>k\<close>-th call of
  \<^verbatim>\<open>absl::Now()\<close> returns, in Unix seconds, and \<open>clock_reads\<close> counts the calls made.
\<close>

record Clock =
  clock :: "nat \<Rightarrow> int64_t"
  clock_reads :: nat

definition Now :: "Clock \<Rightarrow> int64_t \<times> Clock" where
  "Now clk = (clock clk (clock_reads clk), clk\<lparr>clock_reads := Suc (clock_reads clk)\<rparr>)"

definition enqueue :: "HookEvent \<Rightarrow> PluginClient \<Rightarrow> PluginClient" where
  "enqueue e c = c\<lparr>m_event_queue := m_event_queue c @ [e]\<rparr>"

section \<open>The producers' entry points\<close>

text \<open>
  \<^verbatim>\<open>StartHookAsync\<close>: every task is copied to the end of the request's list, and the
  request is enqueued as a START event.
\<close>

fun add_start_tasks :: "TaskInfo list \<Rightarrow> TaskInfo list \<Rightarrow> TaskInfo list" where
  "add_start_tasks [] task_list = task_list"
| "add_start_tasks (task # tasks) task_list = add_start_tasks tasks (task_list @ [task])"

definition StartHookAsync :: "TaskInfo list \<Rightarrow> PluginClient \<Rightarrow> PluginClient" where
  "StartHookAsync tasks c =
     (let request = StartHookRequest (add_start_tasks tasks []);
          e = \<lparr>type = START, msg = Some request\<rparr>
      in enqueue e c)"

text \<open>
  \<^verbatim>\<open>EndHookAsync\<close>: \<^verbatim>\<open>now\<close> is read before the loop; every task is copied and the seconds
  of the copy's elapsed time are set to \<^verbatim>\<open>now - task.start_time().seconds()\<close>, a
  subtraction of two \<^verbatim>\<open>int64_t\<close>.
\<close>

definition set_elapsed :: "int64_t \<Rightarrow> TaskInfo \<Rightarrow> TaskInfo" where
  "set_elapsed now task =
     task\<lparr>elapsed_time := (elapsed_time task)\<lparr>dur_seconds := now - ts_seconds (start_time task)\<rparr>\<rparr>"

fun add_end_tasks :: "int64_t \<Rightarrow> TaskInfo list \<Rightarrow> TaskInfo list \<Rightarrow> TaskInfo list" where
  "add_end_tasks now [] task_list = task_list"
| "add_end_tasks now (task # tasks) task_list =
     add_end_tasks now tasks (task_list @ [set_elapsed now task])"

definition EndHookAsync :: "Clock \<Rightarrow> TaskInfo list \<Rightarrow> PluginClient \<Rightarrow> Clock \<times> PluginClient" where
  "EndHookAsync clk tasks c =
     (let (now, clk') = Now clk;
          request = EndHookRequest (add_end_tasks now tasks []);
          e = \<lparr>type = END, msg = Some request\<rparr>
      in (clk', enqueue e c))"

definition JobMonitorHookAsync :: "task_id_t \<Rightarrow> string \<Rightarrow> PluginClient \<Rightarrow> PluginClient" where
  "JobMonitorHookAsync tid cgroup_path c =
     (let request = JobMonitorHookRequest tid cgroup_path;
          e = \<lparr>type = JOB_MONITOR, msg = Some request\<rparr>
      in enqueue e c)"

section \<open>The transport and the plugin daemon\<close>

text \<open>
  gRPC is a collaborator. A status is its code and its message; \<open>code_int\<close> is the
  numeric value of the code, as \<^verbatim>\<open>int(status.error_code())\<close> prints it.
\<close>

datatype StatusCode =
    OK | CANCELLED | UNKNOWN | INVALID_ARGUMENT | DEADLINE_EXCEEDED | NOT_FOUND
  | ALREADY_EXISTS | PERMISSION_DENIED | RESOURCE_EXHAUSTED | FAILED_PRECONDITION
  | ABORTED | OUT_OF_RANGE | UNIMPLEMENTED | INTERNAL | UNAVAILABLE | DATA_LOSS
  | UNAUTHENTICATED

fun code_int :: "StatusCode \<Rightarrow> nat" where
  "code_int OK = 0"
| "code_int CANCELLED = 1"
| "code_int UNKNOWN = 2"
| "code_int INVALID_ARGUMENT = 3"
| "code_int DEADLINE_EXCEEDED = 4"
| "code_int NOT_FOUND = 5"
| "code_int ALREADY_EXISTS = 6"
| "code_int PERMISSION_DENIED = 7"
| "code_int RESOURCE_EXHAUSTED = 8"
| "code_int FAILED_PRECONDITION = 9"
| "code_int ABORTED = 10"
| "code_int OUT_OF_RANGE = 11"
| "code_int UNIMPLEMENTED = 12"
| "code_int INTERNAL = 13"
| "code_int UNAVAILABLE = 14"
| "code_int DATA_LOSS = 15"
| "code_int UNAUTHENTICATED = 16"

record Status =
  error_code :: StatusCode
  error_message :: string

definition ok :: "Status \<Rightarrow> bool" where
  "ok status = (error_code status = OK)"

datatype RpcMethod = StartHook | EndHook | JobMonitorHook

text \<open>
  The stub is the environment's: given the method called and the request, it answers
  with the status of that one call.
\<close>

type_synonym Stub = "RpcMethod \<Rightarrow> Message \<Rightarrow> Status"

section \<open>What the delivery thread does, as a trace\<close>

datatype LogLevel = TRACE | DEBUG | INFO | ERROR

datatype LogLine =
    PluginClientIsEnding
  | PlugindIsConnected
  | PlugindIsNotConnected
  | DequeuedHookEvents nat
  | FailedToSendHookEvent nat string nat
  | HookEventSent nat
  | SendingStartHook
  | SendingEndHook
  | SendingJobMonitorHook

datatype Action =
    Log LogLevel LogLine
  | WaitForConnected nat bool
  | SleepFor nat
  | SizeApprox nat
  | TryDequeueBulk nat "HookEvent list"
  | EnqueueBulk "HookEvent list"
  | Call RpcMethod Message Status
  | PopFront HookEvent

text \<open>
  Dereferencing a null pointer is undefined behaviour; the model stops with an error there.
\<close>

datatype error = NullDereference

section \<open>The send functions and the dispatch table\<close>

text \<open>
  Each send function casts the payload with \<^verbatim>\<open>dynamic_cast\<close> (null for a null pointer or
  a message of another class), logs at trace level, dereferences the result and calls
  its method of the stub.
\<close>

definition SendStartHook :: "Stub \<Rightarrow> Message option \<Rightarrow> error + (Action list \<times> Status)" where
  "SendStartHook stub m =
     (case m of
        Some (StartHookRequest ts) \<Rightarrow>
          (let request = StartHookRequest ts; status = stub StartHook request
           in Inr ([Log TRACE SendingStartHook, Call StartHook request status], status))
      | _ \<Rightarrow> Inl NullDereference)"

definition SendEndHook :: "Stub \<Rightarrow> Message option \<Rightarrow> error + (Action list \<times> Status)" where
  "SendEndHook stub m =
     (case m of
        Some (EndHookRequest ts) \<Rightarrow>
          (let request = EndHookRequest ts; status = stub EndHook request
           in Inr ([Log TRACE SendingEndHook, Call EndHook request status], status))
      | _ \<Rightarrow> Inl NullDereference)"

definition SendJobMonitorHook :: "Stub \<Rightarrow> Message option \<Rightarrow> error + (Action list \<times> Status)" where
  "SendJobMonitorHook stub m =
     (case m of
        Some (JobMonitorHookRequest tid cg) \<Rightarrow>
          (let request = JobMonitorHookRequest tid cg; status = stub JobMonitorHook request
           in Inr ([Log TRACE SendingJobMonitorHook, Call JobMonitorHook request status], status))
      | _ \<Rightarrow> Inl NullDereference)"

text \<open>
  Modelled from the spec: the table \<^verbatim>\<open>s_hook_dispatch_funcs_\<close> and the numeric values of
  \<^verbatim>\<open>HookType\<close> are declared in the header, which is not among the sources. The spec: a
  fixed mapping from each of the 3 hook types to a send function; the hook types are
  numbered in the order START, END, JOB_MONITOR, and the table holds the send function
  of each type at its number.
\<close>

type_synonym HookDispatchFunc = "Stub \<Rightarrow> Message option \<Rightarrow> error + (Action list \<times> Status)"

fun size_t :: "HookType \<Rightarrow> nat" where
  "size_t START = 0"
| "size_t END = 1"
| "size_t JOB_MONITOR = 2"

definition s_hook_dispatch_funcs :: "HookDispatchFunc list" where
  "s_hook_dispatch_funcs = [SendStartHook, SendEndHook, SendJobMonitorHook]"

section \<open>The delivery loop\<close>

text \<open>
  The inner loop of \<^verbatim>\<open>AsyncSendThread_\<close> over the working list \<open>events\<close>. \<open>plugind k\<close>
  is the stub's answer to the \<open>k\<close>-th call of the thread, \<open>n\<close> the number of calls made so
  far. The result is the trace, the number of calls made and the client.
\<close>

fun process_events ::
  "(nat \<Rightarrow> Stub) \<Rightarrow> nat \<Rightarrow> HookEvent list \<Rightarrow> PluginClient
     \<Rightarrow> error + (Action list \<times> nat \<times> PluginClient)" where
  "process_events plugind n [] c = Inr ([], n, c)"
| "process_events plugind n (e # events) c =
     (let f = s_hook_dispatch_funcs ! size_t (type e) in
      case f (plugind n) (msg e) of
        Inl err \<Rightarrow> Inl err
      | Inr (sent, status) \<Rightarrow>
          if \<not> ok status then
            (let failed = [Log ERROR (FailedToSendHookEvent (size_t (type e))
                             (error_message status) (code_int (error_code status)))]
             in if error_code status = UNAVAILABLE then
                  (if e # events \<noteq> [] then
                     Inr (sent @ failed @ [EnqueueBulk (e # events)], Suc n,
                          c\<lparr>m_event_queue := m_event_queue c @ (e # events)\<rparr>)
                   else Inr (sent @ failed, Suc n, c))
                else
                  (case process_events plugind (Suc n) events c of
                     Inl err \<Rightarrow> Inl err
                   | Inr (rest, n', c') \<Rightarrow> Inr (sent @ failed @ [PopFront e] @ rest, n', c')))
          else
            (case process_events plugind (Suc n) events c of
               Inl err \<Rightarrow> Inl err
             | Inr (rest, n', c') \<Rightarrow>
                 Inr (sent @ [Log TRACE (HookEventSent (size_t (type e))), PopFront e] @ rest,
                      n', c')))"

text \<open>
  One pass of the outer loop. What the pass cannot decide itself is the environment's:
  the answer of \<^verbatim>\<open>WaitForConnected\<close>, the answer of \<^verbatim>\<open>size_approx\<close>, how many events the
  bulk dequeue finds, and the events the producers enqueue while the pass sends. The
  queue belongs to a third-party library: \<^verbatim>\<open>try_dequeue_bulk\<close> writes the events it takes,
  at most \<open>max_items\<close>, over the front of the destination and returns their number;
  the trace records them. \<^verbatim>\<open>resize\<close> cuts the list or fills it up with value-initialised
  events: the hook type of number 0 and a null payload.
\<close>

record IterEnv =
  connected :: bool
  approx :: nat
  available :: nat
  produced :: "HookEvent list"

definition default_event :: HookEvent where
  "default_event = \<lparr>type = START, msg = None\<rparr>"

definition resize :: "nat \<Rightarrow> HookEvent list \<Rightarrow> HookEvent list" where
  "resize n xs = take n xs @ replicate (n - length xs) default_event"

definition try_dequeue_bulk ::
  "nat \<Rightarrow> nat \<Rightarrow> HookEvent list \<Rightarrow> HookEvent list
     \<Rightarrow> HookEvent list \<times> nat \<times> HookEvent list" where
  "try_dequeue_bulk avail max_items dest q =
     (let k = min max_items (min avail (length q))
      in (take k q @ drop k dest, k, drop k q))"

datatype Control = Continue | Break

definition iteration ::
  "IterEnv \<Rightarrow> (nat \<Rightarrow> Stub) \<Rightarrow> nat \<Rightarrow> bool \<Rightarrow> PluginClient
     \<Rightarrow> error + (Control \<times> Action list \<times> nat \<times> bool \<times> PluginClient)" where
  "iteration env plugind n prev_conn_state c =
     (if m_thread_stop c then Inr (Break, [], n, prev_conn_state, c)
      else
        let is_connected = connected env;
            polled = [WaitForConnected 3000 is_connected] @
              (if \<not> prev_conn_state \<and> is_connected then [Log INFO PlugindIsConnected] else [])
        in if \<not> is_connected then
             Inr (Continue, polled @ [Log INFO PlugindIsNotConnected, SleepFor 1000],
                  n, is_connected, c)
           else
             let approx_size = approx env in
             if approx_size = 0 then
               Inr (Continue, polled @ [SizeApprox approx_size, SleepFor 100], n, is_connected, c)
             else
               let events = resize approx_size [];
                   (events, actual_size, q) =
                     try_dequeue_bulk (available env) approx_size events (m_event_queue c);
                   taken = take actual_size events;
                   events = resize actual_size events;
                   dequeued = [SizeApprox approx_size, TryDequeueBulk approx_size taken,
                               Log DEBUG (DequeuedHookEvents actual_size)];
                   c = c\<lparr>m_event_queue := q @ produced env\<rparr>
               in case process_events plugind n events c of
                    Inl err \<Rightarrow> Inl err
                  | Inr (processed, n', c') \<Rightarrow>
                      Inr (Continue, polled @ dequeued @ processed, n', is_connected, c'))"

text \<open>
  The thread: passes of the loop until one breaks. The loop ends only when the stop flag
  is set, so the model runs it on fuel, at most \<open>fuel\<close> passes: the control of the result
  is \<open>Break\<close> when the loop has ended and \<open>Continue\<close> when the fuel is used up before.
  \<open>envs k\<close> is the environment of pass \<open>k\<close>.
\<close>

fun AsyncSendThread_loop ::
  "nat \<Rightarrow> (nat \<Rightarrow> IterEnv) \<Rightarrow> (nat \<Rightarrow> Stub) \<Rightarrow> nat \<Rightarrow> nat \<Rightarrow> bool \<Rightarrow> PluginClient
     \<Rightarrow> error + (Control \<times> Action list \<times> nat \<times> bool \<times> PluginClient)" where
  "AsyncSendThread_loop 0 envs plugind k n prev_conn_state c =
     Inr (Continue, [], n, prev_conn_state, c)"
| "AsyncSendThread_loop (Suc fuel) envs plugind k n prev_conn_state c =
     (case iteration (envs k) plugind n prev_conn_state c of
        Inl err \<Rightarrow> Inl err
      | Inr (Break, t, n', prev', c') \<Rightarrow> Inr (Break, t, n', prev', c')
      | Inr (Continue, t, n', prev', c') \<Rightarrow>
          (case AsyncSendThread_loop fuel envs plugind (Suc k) n' prev' c' of
             Inl err \<Rightarrow> Inl err
           | Inr (ctl, t', n'', prev'', c'') \<Rightarrow> Inr (ctl, t @ t', n'', prev'', c'')))"

definition AsyncSendThread ::
  "nat \<Rightarrow> (nat \<Rightarrow> IterEnv) \<Rightarrow> (nat \<Rightarrow> Stub) \<Rightarrow> PluginClient
     \<Rightarrow> error + (Control \<times> Action list \<times> nat \<times> bool \<times> PluginClient)" where
  "AsyncSendThread fuel envs plugind c = AsyncSendThread_loop fuel envs plugind 0 0 False c"

section \<open>Reading a trace\<close>

fun calls :: "Action list \<Rightarrow> (RpcMethod \<times> Message \<times> Status) list" where
  "calls [] = []"
| "calls (Call m r s # t) = (m, r, s) # calls t"
| "calls (a # t) = calls t"

fun popped :: "Action list \<Rightarrow> HookEvent list" where
  "popped [] = []"
| "popped (PopFront e # t) = e # popped t"
| "popped (a # t) = popped t"

fun bulk_enqueues :: "Action list \<Rightarrow> HookEvent list list" where
  "bulk_enqueues [] = []"
| "bulk_enqueues (EnqueueBulk es # t) = es # bulk_enqueues t"
| "bulk_enqueues (a # t) = bulk_enqueues t"

fun dequeues :: "Action list \<Rightarrow> (nat \<times> HookEvent list) list" where
  "dequeues [] = []"
| "dequeues (TryDequeueBulk m es # t) = (m, es) # dequeues t"
| "dequeues (a # t) = dequeues t"

fun logs :: "Action list \<Rightarrow> (LogLevel \<times> LogLine) list" where
  "logs [] = []"
| "logs (Log l m # t) = (l, m) # logs t"
| "logs (a # t) = logs t"

fun sleeps :: "Action list \<Rightarrow> nat list" where
  "sleeps [] = []"
| "sleeps (SleepFor ms # t) = ms # sleeps t"
| "sleeps (a # t) = sleeps t"

section \<open>Notions for stating the properties\<close>

text \<open>
  \<open>method_of\<close> is the method of the stub that the send function at a type's place in the
  table calls. An event is \<open>consistent\<close> when its payload is a message of the class of
  its type, which the three entry points of the producers establish. \<open>reply plugind k e\<close>
  is the stub's answer when the \<open>k\<close>-th call sends \<open>e\<close>; \<open>replies\<close> lists the calls that
  sending a list of events one after the other makes, the first of them call \<open>n\<close>.
\<close>

fun method_of :: "HookType \<Rightarrow> RpcMethod" where
  "method_of START = StartHook"
| "method_of END = EndHook"
| "method_of JOB_MONITOR = JobMonitorHook"

definition consistent :: "HookEvent \<Rightarrow> bool" where
  "consistent e =
     (case (type e, msg e) of
        (START, Some (StartHookRequest ts)) \<Rightarrow> True
      | (END, Some (EndHookRequest ts)) \<Rightarrow> True
      | (JOB_MONITOR, Some (JobMonitorHookRequest tid cg)) \<Rightarrow> True
      | _ \<Rightarrow> False)"

definition reply :: "(nat \<Rightarrow> Stub) \<Rightarrow> nat \<Rightarrow> HookEvent \<Rightarrow> Status" where
  "reply plugind k e = plugind k (method_of (type e)) (the (msg e))"

fun sending :: "HookType \<Rightarrow> LogLine" where
  "sending START = SendingStartHook"
| "sending END = SendingEndHook"
| "sending JOB_MONITOR = SendingJobMonitorHook"

definition sent_actions :: "HookEvent \<Rightarrow> Status \<Rightarrow> Action list" where
  "sent_actions e status =
     [Log TRACE (sending (type e)), Call (method_of (type e)) (the (msg e)) status]"

definition failed_line :: "HookEvent \<Rightarrow> Status \<Rightarrow> Action" where
  "failed_line e status =
     Log ERROR (FailedToSendHookEvent (size_t (type e)) (error_message status)
                  (code_int (error_code status)))"

fun replies :: "(nat \<Rightarrow> Stub) \<Rightarrow> nat \<Rightarrow> HookEvent list \<Rightarrow> (RpcMethod \<times> Message \<times> Status) list" where
  "replies plugind n [] = []"
| "replies plugind n (e # es) =
     (method_of (type e), the (msg e), reply plugind n e) # replies plugind (Suc n) es"

text \<open>
  What the loop does with an event whose send is answered with a status other than
  UNAVAILABLE: the send, a line at trace level for the status OK and at error level
  for any other, and the pop. And what it does when the send of the first of
  \<open>requeued\<close> is answered with UNAVAILABLE.
\<close>

definition discard_one :: "HookEvent \<Rightarrow> Status \<Rightarrow> Action list" where
  "discard_one e status =
     sent_actions e status @
     (if ok status then [Log TRACE (HookEventSent (size_t (type e)))]
      else [failed_line e status]) @ [PopFront e]"

fun discard_actions :: "(nat \<Rightarrow> Stub) \<Rightarrow> nat \<Rightarrow> HookEvent list \<Rightarrow> Action list" where
  "discard_actions plugind n [] = []"
| "discard_actions plugind n (e # es) =
     discard_one e (reply plugind n e) @ discard_actions plugind (Suc n) es"

definition requeue_actions :: "(nat \<Rightarrow> Stub) \<Rightarrow> nat \<Rightarrow> HookEvent list \<Rightarrow> Action list" where
  "requeue_actions plugind n requeued =
     (case requeued of
        [] \<Rightarrow> []
      | e # rest \<Rightarrow>
          sent_actions e (reply plugind n e) @
          [failed_line e (reply plugind n e), EnqueueBulk (e # rest)])"

text \<open>Concrete events, statuses and stubs, for the examples.\<close>

definition example_start :: HookEvent where
  "example_start = \<lparr>type = START, msg = Some (StartHookRequest [])\<rparr>"

definition example_end :: HookEvent where
  "example_end = \<lparr>type = END, msg = Some (EndHookRequest [])\<rparr>"

definition example_monitor :: HookEvent where
  "example_monitor = \<lparr>type = JOB_MONITOR, msg = Some (JobMonitorHookRequest 7 ''cgroup'')\<rparr>"

definition status_of :: "StatusCode \<Rightarrow> Status" where
  "status_of code = \<lparr>error_code = code, error_message = ''''\<rparr>"

definition client_with :: "HookEvent list \<Rightarrow> PluginClient" where
  "client_with q = \<lparr>m_thread_stop = False, m_event_queue = q\<rparr>"

text \<open>
  The lines of the log that speak of the connection, and environments for the examples:
  \<open>every_pass env\<close> gives every pass the environment \<open>env\<close>.
\<close>

definition connection_lines :: "Action list \<Rightarrow> (LogLevel \<times> LogLine) list" where
  "connection_lines t =
     filter (\<lambda>l. snd l = PlugindIsConnected \<or> snd l = PlugindIsNotConnected) (logs t)"

definition every_pass :: "IterEnv \<Rightarrow> nat \<Rightarrow> IterEnv" where
  "every_pass env k = env"

definition disconnected_env :: IterEnv where
  "disconnected_env = \<lparr>connected = False, approx = 0, available = 0, produced = []\<rparr>"

definition connected_env :: "nat \<Rightarrow> nat \<Rightarrow> IterEnv" where
  "connected_env a k = \<lparr>connected = True, approx = a, available = k, produced = []\<rparr>"

text \<open>
  \<open>request_of e\<close> is the call that sends \<open>e\<close>: the method of its type and its payload.
  \<open>settled t\<close> are the calls of a trace that were answered with a status other than
  UNAVAILABLE, in their order. \<open>not_connected_actions\<close> is what a pass does when its
  poll answers not connected.
\<close>

definition request_of :: "HookEvent \<Rightarrow> RpcMethod \<times> Message" where
  "request_of e = (method_of (type e), the (msg e))"

definition settled :: "Action list \<Rightarrow> (RpcMethod \<times> Message) list" where
  "settled t =
     map (\<lambda>x. (fst x, fst (snd x)))
       (filter (\<lambda>x. error_code (snd (snd x)) \<noteq> UNAVAILABLE) (calls t))"

definition not_connected_actions :: "Action list" where
  "not_connected_actions =
     [WaitForConnected 3000 False, Log INFO PlugindIsNotConnected, SleepFor 1000]"

definition answer_all :: "Status \<Rightarrow> nat \<Rightarrow> Stub" where
  "answer_all status k m r = status"

definition answer_at :: "nat \<Rightarrow> Status \<Rightarrow> Status \<Rightarrow> nat \<Rightarrow> Stub" where
  "answer_at j status other k m r = (if k = j then status else other)"

section \<open>The threads of the client\<close>

text \<open>
  The destructor, the producers and the delivery thread run side by side; the model
  interleaves their steps. \<open>thread\<close> is \<^verbatim>\<open>m_async_send_thread_\<close> with the thread behind
  it: not started before \<^verbatim>\<open>InitChannelAndStub\<close>, then running with the locals of
  \<^verbatim>\<open>AsyncSendThread_\<close> (the calls made so far and \<^verbatim>\<open>prev_conn_state\<close>), finished once the
  loop has broken. \<open>dtor\<close> is where \<^verbatim>\<open>~PluginClient\<close> stands: not called, past the store
  of the stop flag and at the join, or returned. A thread object is joinable once it
  has been started, and \<^verbatim>\<open>join\<close> returns only when its thread has finished.

  A pass of the loop is one step. The pass loads the stop flag once, as its first
  action, so a store that falls inside a pass has the effect of a store right after it.
  The events that arrive during a pass come from the producers' entry points, so they
  are consistent.
\<close>

datatype ThreadState = NotStarted | Running nat bool | Finished

datatype DtorState = NotCalled | Joining | Returned

record System =
  client :: PluginClient
  thread :: ThreadState
  dtor :: DtorState

datatype Step =
    Init
  | Produced
  | Pass "Action list"
  | DtorStore "Action list"
  | DtorJoin

inductive step :: "System \<Rightarrow> Step \<Rightarrow> System \<Rightarrow> bool" where
  init:
    "step s Init (s\<lparr>thread := Running 0 False\<rparr>)"
    if "thread s = NotStarted" and "dtor s = NotCalled"
| start_hook:
    "step s Produced (s\<lparr>client := StartHookAsync tasks (client s)\<rparr>)"
| end_hook:
    "step s Produced (s\<lparr>client := snd (EndHookAsync clk tasks (client s))\<rparr>)"
| job_monitor_hook:
    "step s Produced (s\<lparr>client := JobMonitorHookAsync tid cgroup_path (client s)\<rparr>)"
| pass:
    "step s (Pass t)
       (s\<lparr>client := c', thread := (if ctl = Break then Finished else Running n' prev')\<rparr>)"
    if "thread s = Running n prev"
      and "\<forall>e \<in> set (produced env). consistent e"
      and "iteration env plugind n prev (client s) = Inr (ctl, t, n', prev', c')"
| store:
    "step s (DtorStore [Log TRACE PluginClientIsEnding])
       (s\<lparr>client := (client s)\<lparr>m_thread_stop := True\<rparr>, dtor := Joining\<rparr>)"
    if "dtor s = NotCalled"
| join:
    "step s DtorJoin (s\<lparr>dtor := Returned\<rparr>)"
    if "dtor s = Joining" and "thread s \<noteq> NotStarted \<longrightarrow> thread s = Finished"

inductive steps :: "System \<Rightarrow> Step list \<Rightarrow> System \<Rightarrow> bool" where
  nil: "steps s [] s"
| cons: "steps s (l # ls) s''" if "step s l s'" and "steps s' ls s''"

definition initial :: System where
  "initial = \<lparr>client = \<lparr>m_thread_stop = False, m_event_queue = []\<rparr>,
              thread = NotStarted, dtor = NotCalled\<rparr>"

fun is_pass :: "Step \<Rightarrow> bool" where
  "is_pass (Pass t) = True"
| "is_pass l = False"

fun is_store :: "Step \<Rightarrow> bool" where
  "is_store (DtorStore t) = True"
| "is_store l = False"

fun actions_of :: "Step \<Rightarrow> Action list" where
  "actions_of (Pass t) = t"
| "actions_of (DtorStore t) = t"
| "actions_of l = []"

text \<open>
  What holds in every state the client reaches: the stop flag is set from the store on,
  the destructor has returned only when no thread is running, and the events in the
  queue are consistent.
\<close>

definition shutdown_inv :: "System \<Rightarrow> bool" where
  "shutdown_inv s =
     ((dtor s \<noteq> NotCalled \<longrightarrow> m_thread_stop (client s)) \<and>
      (dtor s = Returned \<longrightarrow> thread s = NotStarted \<or> thread s = Finished))"

definition queue_consistent :: "PluginClient \<Rightarrow> bool" where
  "queue_consistent c = (\<forall>e \<in> set (m_event_queue c). consistent e)"

section \<open>The thread among the producers\<close>

text \<open>
  Over several passes the queue is not the thread's alone. While the thread polls,
  sleeps or is between two passes, the producers enqueue events: \<open>arrived\<close> are those
  enqueued since the pass before. And the queue keeps no order across producers, so it
  holds and hands over its events in an order of its own: \<open>reorder\<close>, a permutation.
  \<open>AsyncSendThread_run\<close> is the loop with both in front of every pass. \<open>arrivals\<close> are
  the events that the producers have enqueued in the course of a run: those before
  each of its passes and, in the passes that dequeue, those during the pass.
\<close>

record QueueEnv =
  arrived :: "HookEvent list"
  reorder :: "HookEvent list \<Rightarrow> HookEvent list"

definition disturb :: "QueueEnv \<Rightarrow> PluginClient \<Rightarrow> PluginClient" where
  "disturb qe c = c\<lparr>m_event_queue := reorder qe (m_event_queue c @ arrived qe)\<rparr>"

fun AsyncSendThread_run ::
  "nat \<Rightarrow> (nat \<Rightarrow> QueueEnv) \<Rightarrow> (nat \<Rightarrow> IterEnv) \<Rightarrow> (nat \<Rightarrow> Stub) \<Rightarrow> nat \<Rightarrow> nat \<Rightarrow> bool
     \<Rightarrow> PluginClient \<Rightarrow> error + (Control \<times> Action list \<times> nat \<times> bool \<times> PluginClient)" where
  "AsyncSendThread_run 0 dists envs plugind k n prev_conn_state c =
     Inr (Continue, [], n, prev_conn_state, c)"
| "AsyncSendThread_run (Suc fuel) dists envs plugind k n prev_conn_state c =
     (case iteration (envs k) plugind n prev_conn_state (disturb (dists k) c) of
        Inl err \<Rightarrow> Inl err
      | Inr (Break, t, n', prev', c') \<Rightarrow> Inr (Break, t, n', prev', c')
      | Inr (Continue, t, n', prev', c') \<Rightarrow>
          (case AsyncSendThread_run fuel dists envs plugind (Suc k) n' prev' c' of
             Inl err \<Rightarrow> Inl err
           | Inr (ctl, t', n'', prev'', c'') \<Rightarrow> Inr (ctl, t @ t', n'', prev'', c'')))"







section \<open>Lemmas\<close>

lemma add_start_tasks_eq: "add_start_tasks tasks task_list = task_list @ tasks"
  by (induction tasks arbitrary: task_list) simp_all

lemma add_end_tasks_eq:
  "add_end_tasks now tasks task_list = task_list @ map (set_elapsed now) tasks"
  by (induction tasks arbitrary: task_list) simp_all

lemma sint_sub_exact:
  fixes a b :: int64_t
  assumes "- (2 ^ 63) \<le> sint a - sint b" and "sint a - sint b < 2 ^ 63"
  shows "sint (a - b) = sint a - sint b"
  using assms by (simp add: sint_word_ariths signed_take_bit_int_eq_self)

lemma calls_append [simp]: "calls (a @ b) = calls a @ calls b"
  by (induction a rule: calls.induct) simp_all

lemma popped_append [simp]: "popped (a @ b) = popped a @ popped b"
  by (induction a rule: popped.induct) simp_all

lemma bulk_enqueues_append [simp]: "bulk_enqueues (a @ b) = bulk_enqueues a @ bulk_enqueues b"
  by (induction a rule: bulk_enqueues.induct) simp_all

lemma dequeues_append [simp]: "dequeues (a @ b) = dequeues a @ dequeues b"
  by (induction a rule: dequeues.induct) simp_all

lemma logs_append [simp]: "logs (a @ b) = logs a @ logs b"
  by (induction a rule: logs.induct) simp_all

lemma sleeps_append [simp]: "sleeps (a @ b) = sleeps a @ sleeps b"
  by (induction a rule: sleeps.induct) simp_all

lemma dispatch_consistent:
  assumes "consistent e"
  shows "(s_hook_dispatch_funcs ! size_t (type e)) stub (msg e) =
           Inr (sent_actions e (stub (method_of (type e)) (the (msg e))),
                stub (method_of (type e)) (the (msg e)))"
  using assms
  by (cases "type e"; cases "msg e")
     (auto simp: consistent_def s_hook_dispatch_funcs_def SendStartHook_def SendEndHook_def
        SendJobMonitorHook_def sent_actions_def Let_def split: Message.splits)

lemma dispatch_inconsistent:
  assumes "\<not> consistent e"
  shows "(s_hook_dispatch_funcs ! size_t (type e)) stub (msg e) = Inl NullDereference"
  using assms
  by (cases "type e"; cases "msg e")
     (auto simp: consistent_def s_hook_dispatch_funcs_def SendStartHook_def SendEndHook_def
        SendJobMonitorHook_def split: Message.splits)

lemma process_events_Cons:
  "process_events plugind n (e # events) c =
     (if \<not> consistent e then Inl NullDereference
      else if error_code (reply plugind n e) = UNAVAILABLE then
        Inr (sent_actions e (reply plugind n e) @
             [failed_line e (reply plugind n e), EnqueueBulk (e # events)], Suc n,
             c\<lparr>m_event_queue := m_event_queue c @ e # events\<rparr>)
      else
        (case process_events plugind (Suc n) events c of
           Inl err \<Rightarrow> Inl err
         | Inr (rest, n', c') \<Rightarrow>
             Inr (sent_actions e (reply plugind n e) @
                  (if ok (reply plugind n e)
                   then [Log TRACE (HookEventSent (size_t (type e)))]
                   else [failed_line e (reply plugind n e)]) @ [PopFront e] @ rest, n', c')))"
proof (cases "consistent e")
  case True
  show ?thesis
    by (simp add: dispatch_consistent [OF True] True reply_def failed_line_def Let_def ok_def
          split: sum.splits)
next
  case False
  then show ?thesis
    by (simp add: dispatch_inconsistent [OF False])
qed

declare process_events.simps(2) [simp del]

lemma calls_sent_actions [simp]:
  "calls (sent_actions e status) = [(method_of (type e), the (msg e), status)]"
  by (simp add: sent_actions_def)

lemma popped_sent_actions [simp]: "popped (sent_actions e status) = []"
  by (simp add: sent_actions_def)

lemma bulk_enqueues_sent_actions [simp]: "bulk_enqueues (sent_actions e status) = []"
  by (simp add: sent_actions_def)

lemma dequeues_sent_actions [simp]: "dequeues (sent_actions e status) = []"
  by (simp add: sent_actions_def)

lemma calls_failed_line [simp]: "calls (failed_line e status # t) = calls t"
  by (simp add: failed_line_def)

lemma popped_failed_line [simp]: "popped (failed_line e status # t) = popped t"
  by (simp add: failed_line_def)

lemma bulk_enqueues_failed_line [simp]:
  "bulk_enqueues (failed_line e status # t) = bulk_enqueues t"
  by (simp add: failed_line_def)

lemma dequeues_failed_line [simp]: "dequeues (failed_line e status # t) = dequeues t"
  by (simp add: failed_line_def)

lemma calls_discard_one [simp]:
  "calls (discard_one e status) = [(method_of (type e), the (msg e), status)]"
  by (simp add: discard_one_def)

lemma popped_discard_one [simp]: "popped (discard_one e status) = [e]"
  by (simp add: discard_one_def)

lemma bulk_enqueues_discard_one [simp]: "bulk_enqueues (discard_one e status) = []"
  by (simp add: discard_one_def)

lemma dequeues_discard_one [simp]: "dequeues (discard_one e status) = []"
  by (simp add: discard_one_def)

lemma calls_discard_actions [simp]:
  "calls (discard_actions plugind n es) = replies plugind n es"
  by (induction es arbitrary: n) simp_all

lemma popped_discard_actions [simp]: "popped (discard_actions plugind n es) = es"
  by (induction es arbitrary: n) simp_all

lemma bulk_enqueues_discard_actions [simp]: "bulk_enqueues (discard_actions plugind n es) = []"
  by (induction es arbitrary: n) simp_all

lemma dequeues_discard_actions [simp]: "dequeues (discard_actions plugind n es) = []"
  by (induction es arbitrary: n) simp_all

lemma calls_requeue_actions [simp]:
  "calls (requeue_actions plugind n requeued) = replies plugind n (take 1 requeued)"
  by (cases requeued) (simp_all add: requeue_actions_def)

lemma popped_requeue_actions [simp]: "popped (requeue_actions plugind n requeued) = []"
  by (cases requeued) (simp_all add: requeue_actions_def)

lemma bulk_enqueues_requeue_actions [simp]:
  "bulk_enqueues (requeue_actions plugind n requeued) = (if requeued = [] then [] else [requeued])"
  by (cases requeued) (simp_all add: requeue_actions_def)

lemma dequeues_requeue_actions [simp]: "dequeues (requeue_actions plugind n requeued) = []"
  by (cases requeued) (simp_all add: requeue_actions_def)

lemma replies_append:
  "replies plugind n (xs @ ys) = replies plugind n xs @ replies plugind (n + length xs) ys"
  by (induction xs arbitrary: n) simp_all

lemma discard_actions_append:
  "discard_actions plugind n (xs @ ys) =
     discard_actions plugind n xs @ discard_actions plugind (n + length xs) ys"
  by (induction xs arbitrary: n) simp_all

lemma map_fst_replies: "map fst (replies plugind n es) = map (\<lambda>e. method_of (type e)) es"
  by (induction es arbitrary: n) simp_all

lemma length_replies [simp]: "length (replies plugind n es) = length es"
  by (induction es arbitrary: n) simp_all

text \<open>
  The inner loop never fails on consistent events, and whenever it does not fail it
  splits the working list in two: the events it has discarded, one after the other,
  and the events it has put back, all at once.
\<close>

lemma process_events_total:
  assumes "\<forall>e \<in> set events. consistent e"
  shows "\<exists>t n' c'. process_events plugind n events c = Inr (t, n', c')"
  using assms
proof (induction events arbitrary: n)
  case Nil
  show ?case by simp
next
  case (Cons e events)
  then obtain t n' c' where "process_events plugind (Suc n) events c = Inr (t, n', c')"
    by fastforce
  with Cons.prems show ?case
    by (simp add: process_events_Cons)
qed

lemma process_events_partition:
  assumes "process_events plugind n events c = Inr (t, n', c')"
  shows "\<exists>discarded requeued.
           events = discarded @ requeued \<and>
           t = discard_actions plugind n discarded @
               requeue_actions plugind (n + length discarded) requeued \<and>
           c' = (if requeued = [] then c
                 else c\<lparr>m_event_queue := m_event_queue c @ requeued\<rparr>) \<and>
           n' = n + length (discarded @ take 1 requeued) \<and>
           (\<forall>e \<in> set (discarded @ take 1 requeued). consistent e) \<and>
           (\<forall>x \<in> set (replies plugind n discarded). error_code (snd (snd x)) \<noteq> UNAVAILABLE) \<and>
           (requeued \<noteq> [] \<longrightarrow>
              error_code (reply plugind (n + length discarded) (hd requeued)) = UNAVAILABLE)"
  using assms
proof (induction events arbitrary: n t n' c')
  case Nil
  then show ?case by (simp add: requeue_actions_def)
next
  case (Cons e events)
  from Cons.prems have cons: "consistent e"
    by (auto simp: process_events_Cons split: if_splits)
  show ?case
  proof (cases "error_code (reply plugind n e) = UNAVAILABLE")
    case True
    with Cons.prems cons have
      t: "t = sent_actions e (reply plugind n e) @
              [failed_line e (reply plugind n e), EnqueueBulk (e # events)]"
      and n': "n' = Suc n"
      and c': "c' = c\<lparr>m_event_queue := m_event_queue c @ e # events\<rparr>"
      by (simp_all add: process_events_Cons)
    show ?thesis
      apply (rule exI [of _ "[]"])
      apply (rule exI [of _ "e # events"])
      using True cons by (simp add: t n' c' requeue_actions_def)
  next
    case False
    with Cons.prems cons obtain rest where
      rec: "process_events plugind (Suc n) events c = Inr (rest, n', c')"
      and t: "t = discard_one e (reply plugind n e) @ rest"
      by (auto simp: process_events_Cons discard_one_def split: sum.splits)
    from Cons.IH [OF rec] obtain discarded requeued where
      ih: "events = discarded @ requeued"
        "rest = discard_actions plugind (Suc n) discarded @
                requeue_actions plugind (Suc n + length discarded) requeued"
        "c' = (if requeued = [] then c else c\<lparr>m_event_queue := m_event_queue c @ requeued\<rparr>)"
        "n' = Suc n + length (discarded @ take 1 requeued)"
        "\<forall>e \<in> set (discarded @ take 1 requeued). consistent e"
        "\<forall>x \<in> set (replies plugind (Suc n) discarded). error_code (snd (snd x)) \<noteq> UNAVAILABLE"
        "requeued \<noteq> [] \<longrightarrow>
           error_code (reply plugind (Suc n + length discarded) (hd requeued)) = UNAVAILABLE"
      by blast
    show ?thesis
      apply (rule exI [of _ "e # discarded"])
      apply (rule exI [of _ requeued])
      using ih False cons by (simp add: t)
  qed
qed

lemma process_events_front:
  assumes "\<forall>e \<in> set front. consistent e"
    and "\<forall>x \<in> set (replies plugind n front). error_code (snd (snd x)) \<noteq> UNAVAILABLE"
  shows "process_events plugind n (front @ events) c =
           (case process_events plugind (n + length front) events c of
              Inl err \<Rightarrow> Inl err
            | Inr (t', n', c') \<Rightarrow> Inr (discard_actions plugind n front @ t', n', c'))"
  using assms
proof (induction front arbitrary: n)
  case Nil
  show ?case
    by (simp split: sum.splits)
next
  case (Cons e front)
  from Cons.prems have ce: "consistent e"
    and nu: "error_code (reply plugind n e) \<noteq> UNAVAILABLE"
    and cf: "\<forall>e \<in> set front. consistent e"
    and nf: "\<forall>x \<in> set (replies plugind (Suc n) front). error_code (snd (snd x)) \<noteq> UNAVAILABLE"
    by simp_all
  show ?case
    using ce nu by (simp add: process_events_Cons Cons.IH [OF cf nf] discard_one_def
        split: sum.splits)
qed

text \<open>The passes of the outer loop, case by case.\<close>

lemma working_list:
  assumes "k \<le> length q"
  shows "resize k (take k q @ drop k dest) = take k q"
  using assms by (simp add: resize_def)

lemma iteration_stopped:
  "m_thread_stop c \<Longrightarrow> iteration env plugind n prev c = Inr (Break, [], n, prev, c)"
  by (simp add: iteration_def)

lemma iteration_not_connected:
  assumes "\<not> m_thread_stop c" and "\<not> connected env"
  shows "iteration env plugind n prev c =
           Inr (Continue, [WaitForConnected 3000 False, Log INFO PlugindIsNotConnected,
                           SleepFor 1000], n, False, c)"
  using assms by (simp add: iteration_def)

lemma iteration_idle:
  assumes "\<not> m_thread_stop c" and "connected env" and "approx env = 0"
  shows "iteration env plugind n prev c =
           Inr (Continue, [WaitForConnected 3000 True] @
                  (if \<not> prev then [Log INFO PlugindIsConnected] else []) @
                  [SizeApprox 0, SleepFor 100], n, True, c)"
  using assms by (simp add: iteration_def)

lemma iteration_dequeue:
  assumes "\<not> m_thread_stop c" and "connected env" and "0 < approx env"
    and "k = min (approx env) (min (available env) (length (m_event_queue c)))"
  shows "iteration env plugind n prev c =
           (case process_events plugind n (take k (m_event_queue c))
                   (c\<lparr>m_event_queue := drop k (m_event_queue c) @ produced env\<rparr>) of
              Inl err \<Rightarrow> Inl err
            | Inr (t, n', c') \<Rightarrow>
                Inr (Continue, [WaitForConnected 3000 True] @
                       (if \<not> prev then [Log INFO PlugindIsConnected] else []) @
                       [SizeApprox (approx env), TryDequeueBulk (approx env) (take k (m_event_queue c)),
                        Log DEBUG (DequeuedHookEvents k)] @ t, n', True, c'))"
proof -
  have k: "k \<le> length (m_event_queue c)"
    using assms(4) by simp
  show ?thesis
    using assms(1,2,3) k
    by (simp add: iteration_def try_dequeue_bulk_def Let_def assms(4) [symmetric]
        working_list [OF k] min_absorb2 split: sum.splits)
qed

lemma iteration_starts_with_poll:
  assumes "\<not> m_thread_stop c" and "iteration env plugind n prev c = Inr (ctl, t, r)"
  shows "\<exists>t'. t = WaitForConnected 3000 (connected env) # t'"
  using assms
  by (auto simp: iteration_def Let_def split: if_splits sum.splits prod.splits)

lemma logs_sent_actions [simp]:
  "logs (sent_actions e status) = [(TRACE, sending (type e))]"
  by (simp add: sent_actions_def)

lemma connection_lines_append [simp]:
  "connection_lines (a @ b) = connection_lines a @ connection_lines b"
  by (simp add: connection_lines_def)

lemma connection_lines_sent_actions [simp]: "connection_lines (sent_actions e status) = []"
  by (cases "type e") (simp_all add: connection_lines_def)

lemma connection_lines_discard_one [simp]: "connection_lines (discard_one e status) = []"
  by (simp add: discard_one_def) (simp add: connection_lines_def failed_line_def)

lemma connection_lines_discard_actions [simp]:
  "connection_lines (discard_actions plugind n es) = []"
  by (induction es arbitrary: n) (simp_all add: connection_lines_def [of "[]"])

lemma connection_lines_requeue_actions [simp]:
  "connection_lines (requeue_actions plugind n requeued) = []"
proof (cases requeued)
  case Nil
  then show ?thesis by (simp add: requeue_actions_def connection_lines_def)
next
  case (Cons e rest)
  have "connection_lines [failed_line e (reply plugind n e), EnqueueBulk (e # rest)] = []"
    by (simp add: connection_lines_def failed_line_def)
  then show ?thesis
    by (simp add: requeue_actions_def Cons)
qed

lemma connection_lines_process_events:
  assumes "process_events plugind n events c = Inr (t, n', c')"
  shows "connection_lines t = []"
proof -
  from process_events_partition [OF assms] obtain discarded requeued where
    "t = discard_actions plugind n discarded @
         requeue_actions plugind (n + length discarded) requeued"
    by blast
  then show ?thesis by simp
qed

text \<open>Runs of the threads.\<close>

lemma iteration_keeps_stop:
  assumes "iteration env plugind n prev c = Inr (ctl, t, n', prev', c')"
  shows "m_thread_stop c' = m_thread_stop c"
proof (cases "m_thread_stop c")
  case True
  with assms show ?thesis by (simp add: iteration_stopped)
next
  case stop: False
  show ?thesis
  proof (cases "connected env")
    case False
    with assms stop show ?thesis by (simp add: iteration_not_connected)
  next
    case True
    show ?thesis
    proof (cases "approx env = 0")
      case z: True
      with assms stop True show ?thesis by (simp add: iteration_idle)
    next
      case False
      then have pos: "0 < approx env" by simp
      obtain k where k: "k = min (approx env) (min (available env) (length (m_event_queue c)))"
        by simp
      from assms obtain t0 where
        run: "process_events plugind n (take k (m_event_queue c))
                (c\<lparr>m_event_queue := drop k (m_event_queue c) @ produced env\<rparr>) = Inr (t0, n', c')"
        by (auto simp: iteration_dequeue [OF stop True pos k] split: sum.splits)
      from process_events_partition [OF run] obtain requeued where
        "c' = (if requeued = [] then c\<lparr>m_event_queue := drop k (m_event_queue c) @ produced env\<rparr>
               else c\<lparr>m_event_queue := drop k (m_event_queue c) @ produced env\<rparr>
                     \<lparr>m_event_queue := m_event_queue
                        (c\<lparr>m_event_queue := drop k (m_event_queue c) @ produced env\<rparr>) @ requeued\<rparr>)"
        by blast
      then show ?thesis by (simp split: if_splits)
    qed
  qed
qed

lemma step_shutdown_inv:
  assumes "step s l s'" and "shutdown_inv s"
  shows "shutdown_inv s'"
  using assms
proof cases
  case (pass n prev env plugind ctl t n' prev' c')
  from iteration_keeps_stop [OF pass(5)] have "m_thread_stop c' = m_thread_stop (client s)" .
  with assms(2) pass show ?thesis
    by (auto simp: shutdown_inv_def)
next
  case (end_hook clk tasks)
  with assms(2) show ?thesis
    by (auto simp: shutdown_inv_def EndHookAsync_def Now_def enqueue_def Let_def)
qed (auto simp: shutdown_inv_def StartHookAsync_def JobMonitorHookAsync_def enqueue_def Let_def)

lemma steps_shutdown_inv:
  assumes "steps s ls s'" and "shutdown_inv s"
  shows "shutdown_inv s'"
  using assms by induction (auto intro: step_shutdown_inv)

lemma steps_append:
  "steps s (a @ b) s'' \<longleftrightarrow> (\<exists>s'. steps s a s' \<and> steps s' b s'')"
proof (induction a arbitrary: s)
  case Nil
  show ?case
    by (auto intro: steps.nil elim: steps.cases)
next
  case (Cons l a)
  show ?case
  proof
    assume "steps s ((l # a) @ b) s''"
    then obtain s1 where "step s l s1" "steps s1 (a @ b) s''"
      by (auto elim: steps.cases)
    with Cons.IH show "\<exists>s'. steps s (l # a) s' \<and> steps s' b s''"
      by (blast intro: steps.cons)
  next
    assume "\<exists>s'. steps s (l # a) s' \<and> steps s' b s''"
    then obtain s' where a: "steps s (l # a) s'" and b: "steps s' b s''"
      by blast
    from a obtain s1 where "step s l s1" "steps s1 a s'"
      by (auto elim: steps.cases)
    with b Cons.IH show "steps s ((l # a) @ b) s''"
      by (auto intro: steps.cons)
  qed
qed

lemma steps_Cons:
  "steps s (l # ls) s'' \<longleftrightarrow> (\<exists>s'. step s l s' \<and> steps s' ls s'')"
  by (auto intro: steps.cons elim: steps.cases)

lemma step_after_return:
  assumes "step s l s'" and "dtor s = Returned" and "thread s = NotStarted \<or> thread s = Finished"
  shows "dtor s' = Returned \<and> (thread s' = NotStarted \<or> thread s' = Finished) \<and>
         \<not> is_pass l \<and> actions_of l = []"
  using assms by cases auto

lemma steps_after_return:
  assumes "steps s ls s'" and "dtor s = Returned" and "thread s = NotStarted \<or> thread s = Finished"
  shows "\<forall>l \<in> set ls. \<not> is_pass l \<and> actions_of l = []"
  using assms
proof induction
  case (nil s)
  show ?case by simp
next
  case (cons s l s' ls s'')
  from step_after_return [OF cons.hyps(1) cons.prems] cons.IH show ?case
    by simp
qed

lemma step_store_first:
  assumes "step s l s'" and "dtor s = NotCalled" and "\<not> is_store l"
  shows "dtor s' = NotCalled"
  using assms by cases auto

lemma steps_store_first:
  assumes "steps s ls s'" and "dtor s = NotCalled" and "dtor s' \<noteq> NotCalled"
  shows "\<exists>l \<in> set ls. is_store l"
  using assms
proof induction
  case (nil s)
  then show ?case by simp
next
  case (cons s l s' ls s'')
  show ?case
  proof (cases "is_store l")
    case True
    then show ?thesis by simp
  next
    case False
    from step_store_first [OF cons.hyps(1) cons.prems(1) False] cons.IH cons.prems(2)
    show ?thesis by simp
  qed
qed

lemma shutdown_inv_initial: "shutdown_inv initial"
  by (simp add: shutdown_inv_def initial_def)

lemma settled_append [simp]: "settled (a @ b) = settled a @ settled b"
  by (simp add: settled_def)

lemma settled_Nil [simp]: "settled [] = []"
  by (simp add: settled_def)

lemma settled_discard_actions:
  assumes "\<forall>x \<in> set (replies plugind n es). error_code (snd (snd x)) \<noteq> UNAVAILABLE"
  shows "settled (discard_actions plugind n es) = map request_of es"
  using assms by (induction es arbitrary: n) (simp_all add: settled_def request_of_def)

lemma settled_requeue_actions:
  assumes "requeued \<noteq> [] \<longrightarrow> error_code (reply plugind n (hd requeued)) = UNAVAILABLE"
  shows "settled (requeue_actions plugind n requeued) = []"
  using assms by (cases requeued) (simp_all add: settled_def)


text \<open>No pass loses an event: what it takes from the queue it pops or puts back.\<close>

lemma iteration_conserves:
  assumes "iteration env plugind n prev c = Inr (ctl, t, n', prev', c')"
  shows "\<exists>arrived. mset (m_event_queue c) + mset arrived =
                      mset (popped t) + mset (m_event_queue c') \<and>
                    set arrived \<subseteq> set (produced env) \<and>
                    map request_of (popped t) = settled t"
proof (cases "m_thread_stop c")
  case True
  with assms show ?thesis
    by (intro exI [of _ "[]"]) (simp add: iteration_stopped)
next
  case stop: False
  show ?thesis
  proof (cases "connected env")
    case False
    with assms stop show ?thesis
      by (intro exI [of _ "[]"]) (auto simp: iteration_not_connected settled_def)
  next
    case True
    show ?thesis
    proof (cases "approx env = 0")
      case z: True
      with assms stop True show ?thesis
        by (intro exI [of _ "[]"]) (auto simp: iteration_idle settled_def)
    next
      case False
      then have pos: "0 < approx env" by simp
      obtain k where k: "k = min (approx env) (min (available env) (length (m_event_queue c)))"
        by simp
      let ?c = "c\<lparr>m_event_queue := drop k (m_event_queue c) @ produced env\<rparr>"
      from assms obtain t0 where
        run: "process_events plugind n (take k (m_event_queue c)) ?c = Inr (t0, n', c')"
        and t: "t = [WaitForConnected 3000 True] @
                (if \<not> prev then [Log INFO PlugindIsConnected] else []) @
                [SizeApprox (approx env), TryDequeueBulk (approx env) (take k (m_event_queue c)),
                 Log DEBUG (DequeuedHookEvents k)] @ t0"
        by (auto simp: iteration_dequeue [OF stop True pos k] split: sum.splits)
      from process_events_partition [OF run] obtain discarded requeued where
        p: "take k (m_event_queue c) = discarded @ requeued"
           "t0 = discard_actions plugind n discarded @
                 requeue_actions plugind (n + length discarded) requeued"
           "c' = (if requeued = [] then ?c
                  else ?c\<lparr>m_event_queue := m_event_queue ?c @ requeued\<rparr>)"
           "\<forall>x \<in> set (replies plugind n discarded). error_code (snd (snd x)) \<noteq> UNAVAILABLE"
           "requeued \<noteq> [] \<longrightarrow>
              error_code (reply plugind (n + length discarded) (hd requeued)) = UNAVAILABLE"
        by blast
      have q': "m_event_queue c' = drop k (m_event_queue c) @ produced env @ requeued"
        using p(3) by simp
      have pt: "popped t = discarded"
        by (simp add: t p(2))
      have "settled t = settled t0"
        by (simp add: t) (simp add: settled_def)
      also have "\<dots> = map request_of discarded"
        by (simp add: p(2) settled_discard_actions [OF p(4)] settled_requeue_actions [OF p(5)])
      finally have st: "map request_of (popped t) = settled t"
        by (simp add: pt)
      have "mset (m_event_queue c) = mset (take k (m_event_queue c)) + mset (drop k (m_event_queue c))"
        by (metis append_take_drop_id mset_append)
      then have "mset (m_event_queue c) + mset (produced env) =
                 mset (popped t) + mset (m_event_queue c')"
        by (simp add: p(1) pt q')
      with st show ?thesis
        by (intro exI [of _ "produced env"]) simp
    qed
  qed
qed

text \<open>
  The events in the queue are consistent in every state the client reaches, so no pass
  of the delivery thread fails there.
\<close>

lemma StartHookAsync_consistent:
  assumes "queue_consistent c"
  shows "queue_consistent (StartHookAsync tasks c)"
  using assms by (simp add: queue_consistent_def StartHookAsync_def enqueue_def consistent_def)

lemma EndHookAsync_consistent:
  assumes "queue_consistent c"
  shows "queue_consistent (snd (EndHookAsync clk tasks c))"
  using assms
  by (simp add: queue_consistent_def EndHookAsync_def Now_def enqueue_def consistent_def)

lemma JobMonitorHookAsync_consistent:
  assumes "queue_consistent c"
  shows "queue_consistent (JobMonitorHookAsync tid cgroup_path c)"
  using assms
  by (simp add: queue_consistent_def JobMonitorHookAsync_def enqueue_def consistent_def)

lemma iteration_total:
  assumes "queue_consistent c"
  shows "\<exists>ctl t n' prev' c'. iteration env plugind n prev c = Inr (ctl, t, n', prev', c')"
proof (cases "m_thread_stop c")
  case True
  then show ?thesis by (simp add: iteration_stopped)
next
  case stop: False
  show ?thesis
  proof (cases "connected env")
    case False
    with stop show ?thesis by (auto simp: iteration_not_connected)
  next
    case True
    show ?thesis
    proof (cases "approx env = 0")
      case z: True
      with stop True show ?thesis by (auto simp: iteration_idle)
    next
      case False
      then have pos: "0 < approx env" by simp
      obtain k where k: "k = min (approx env) (min (available env) (length (m_event_queue c)))"
        by simp
      have "\<forall>e \<in> set (take k (m_event_queue c)). consistent e"
        using assms by (meson in_set_takeD queue_consistent_def)
      from process_events_total [OF this] obtain t n' c' where
        "process_events plugind n (take k (m_event_queue c))
           (c\<lparr>m_event_queue := drop k (m_event_queue c) @ produced env\<rparr>) = Inr (t, n', c')"
        by blast
      then show ?thesis
        by (auto simp: iteration_dequeue [OF stop True pos k])
    qed
  qed
qed

lemma iteration_keeps_consistent:
  assumes "iteration env plugind n prev c = Inr (ctl, t, n', prev', c')"
    and "queue_consistent c" and "\<forall>e \<in> set (produced env). consistent e"
  shows "queue_consistent c'"
proof -
  from iteration_conserves [OF assms(1)] obtain arrived where
    m: "mset (m_event_queue c) + mset arrived = mset (popped t) + mset (m_event_queue c')"
    and a: "set arrived \<subseteq> set (produced env)"
    by blast
  have "set (m_event_queue c') \<subseteq> set (m_event_queue c) \<union> set arrived"
  proof
    fix e
    assume "e \<in> set (m_event_queue c')"
    then have "e \<in># mset (popped t) + mset (m_event_queue c')"
      by simp
    then have "e \<in># mset (m_event_queue c) + mset arrived"
      by (simp only: m)
    then show "e \<in> set (m_event_queue c) \<union> set arrived"
      by simp
  qed
  with assms(2,3) a show ?thesis
    by (auto simp: queue_consistent_def)
qed

lemma step_queue_consistent:
  assumes "step s l s'" and "queue_consistent (client s)"
  shows "queue_consistent (client s')"
  using assms
proof cases
  case (pass n prev env plugind ctl t n' prev' c')
  from iteration_keeps_consistent [OF pass(5) assms(2) pass(4)] pass(2) show ?thesis
    by simp
qed (simp_all add: StartHookAsync_consistent EndHookAsync_consistent
       JobMonitorHookAsync_consistent, simp add: queue_consistent_def)

lemma steps_queue_consistent:
  assumes "steps s ls s'" and "queue_consistent (client s)"
  shows "queue_consistent (client s')"
  using assms by induction (auto intro: step_queue_consistent)

lemma reachable_pass_total:
  assumes "steps initial ls s"
  shows "queue_consistent (client s) \<and>
         (\<exists>ctl t n' prev' c'. iteration env plugind n prev (client s) = Inr (ctl, t, n', prev', c'))"
proof -
  have "queue_consistent (client initial)"
    by (simp add: queue_consistent_def initial_def)
  from steps_queue_consistent [OF assms this] iteration_total show ?thesis
    by blast
qed



lemma stop_disturb [simp]: "m_thread_stop (disturb qe c) = m_thread_stop c"
  by (simp add: disturb_def)







lemma run_undisturbed:
  assumes "\<forall>j. arrived (dists j) = [] \<and> (\<forall>q. reorder (dists j) q = q)"
  shows "AsyncSendThread_run f dists envs plugind k n prev c =
         AsyncSendThread_loop f envs plugind k n prev c"
proof (induction f arbitrary: k n prev c)
  case 0
  show ?case by simp
next
  case (Suc f)
  have "disturb (dists k) c = c"
    using assms by (simp add: disturb_def)
  then show ?case
    by (simp add: Suc.IH split: sum.splits prod.splits Control.splits)
qed







section \<open>The end hook's elapsed time\<close>

text \<open>
  C4. A call of \<^verbatim>\<open>EndHookAsync\<close> reads the clock exactly once and enqueues one END event
  whose request has one entry per job of the batch; the seconds of the elapsed time of
  every entry are that one reading minus the seconds of the job's start time, computed
  in \<^verbatim>\<open>int64_t\<close>, and this is the difference of the two as integers whenever that
  difference is an \<^verbatim>\<open>int64_t\<close>.
\<close>

theorem EndHookAsync_elapsed_time:
  assumes "EndHookAsync clk tasks c = (clk', c')"
  shows "clock_reads clk' = Suc (clock_reads clk) \<and>
         (\<exists>task_list. m_event_queue c' =
              m_event_queue c @ [\<lparr>type = END, msg = Some (EndHookRequest task_list)\<rparr>] \<and>
            length task_list = length tasks \<and>
            (\<forall>i < length tasks.
               dur_seconds (elapsed_time (task_list ! i)) =
                 clock clk (clock_reads clk) - ts_seconds (start_time (tasks ! i)) \<and>
               (- (2 ^ 63) \<le> sint (clock clk (clock_reads clk))
                                - sint (ts_seconds (start_time (tasks ! i))) \<and>
                sint (clock clk (clock_reads clk))
                  - sint (ts_seconds (start_time (tasks ! i))) < 2 ^ 63 \<longrightarrow>
                sint (dur_seconds (elapsed_time (task_list ! i))) =
                  sint (clock clk (clock_reads clk))
                    - sint (ts_seconds (start_time (tasks ! i))))))"
  using assms
  by (auto simp: EndHookAsync_def Now_def enqueue_def add_end_tasks_eq set_elapsed_def
      sint_sub_exact)

theorem EndHookAsync_elapsed_time_witness:
  "\<exists>clk' c'.
     EndHookAsync \<lparr>clock = (\<lambda>k. 1700000000), clock_reads = 0\<rparr>
       [\<lparr>task_id = 1, start_time = \<lparr>ts_seconds = 1699999000, ts_nanos = 0\<rparr>,
          elapsed_time = \<lparr>dur_seconds = 0, dur_nanos = 0\<rparr>\<rparr>,
        \<lparr>task_id = 2, start_time = \<lparr>ts_seconds = 1699990000, ts_nanos = 0\<rparr>,
          elapsed_time = \<lparr>dur_seconds = 0, dur_nanos = 0\<rparr>\<rparr>]
       \<lparr>m_thread_stop = False, m_event_queue = []\<rparr> = (clk', c') \<and>
     clock_reads clk' = 1 \<and>
     (\<exists>task_list. m_event_queue c' = [\<lparr>type = END, msg = Some (EndHookRequest task_list)\<rparr>] \<and>
        length task_list = 2 \<and>
        dur_seconds (elapsed_time (task_list ! 0)) = 1000 \<and>
        sint (dur_seconds (elapsed_time (task_list ! 0))) = 1000 \<and>
        dur_seconds (elapsed_time (task_list ! 1)) = 10000 \<and>
        sint (dur_seconds (elapsed_time (task_list ! 1))) = 10000)"
proof -
  obtain clk' c' where run:
    "EndHookAsync \<lparr>clock = (\<lambda>k. 1700000000), clock_reads = 0\<rparr>
       [\<lparr>task_id = 1, start_time = \<lparr>ts_seconds = 1699999000, ts_nanos = 0\<rparr>,
          elapsed_time = \<lparr>dur_seconds = 0, dur_nanos = 0\<rparr>\<rparr>,
        \<lparr>task_id = 2, start_time = \<lparr>ts_seconds = 1699990000, ts_nanos = 0\<rparr>,
          elapsed_time = \<lparr>dur_seconds = 0, dur_nanos = 0\<rparr>\<rparr>]
       \<lparr>m_thread_stop = False, m_event_queue = []\<rparr> = (clk', c')"
    by (cases "EndHookAsync \<lparr>clock = (\<lambda>k. 1700000000), clock_reads = 0\<rparr>
       [\<lparr>task_id = 1, start_time = \<lparr>ts_seconds = 1699999000, ts_nanos = 0\<rparr>,
          elapsed_time = \<lparr>dur_seconds = 0, dur_nanos = 0\<rparr>\<rparr>,
        \<lparr>task_id = 2, start_time = \<lparr>ts_seconds = 1699990000, ts_nanos = 0\<rparr>,
          elapsed_time = \<lparr>dur_seconds = 0, dur_nanos = 0\<rparr>\<rparr>]
       \<lparr>m_thread_stop = False, m_event_queue = []\<rparr>") blast
  from EndHookAsync_elapsed_time [OF run]
  obtain task_list where
    r: "clock_reads clk' = 1"
    and q: "m_event_queue c' = [\<lparr>type = END, msg = Some (EndHookRequest task_list)\<rparr>]"
    and l: "length task_list = 2"
    and a: "\<forall>i<2. dur_seconds (elapsed_time (task_list ! i)) =
              1700000000 - ts_seconds (start_time ([\<lparr>task_id = 1, start_time = \<lparr>ts_seconds = 1699999000, ts_nanos = 0\<rparr>,
          elapsed_time = \<lparr>dur_seconds = 0, dur_nanos = 0\<rparr>\<rparr>,
        \<lparr>task_id = 2, start_time = \<lparr>ts_seconds = 1699990000, ts_nanos = 0\<rparr>,
          elapsed_time = \<lparr>dur_seconds = 0, dur_nanos = 0\<rparr>\<rparr>] ! i))"
    by auto
  from a have a0: "dur_seconds (elapsed_time (task_list ! 0)) = 1000"
    by (drule_tac x = 0 in spec) simp
  from a have a1: "dur_seconds (elapsed_time (task_list ! 1)) = 10000"
    by (drule_tac x = 1 in spec) simp
  show ?thesis
    using run r q l a0 a1 by (intro exI conjI) (assumption | simp)+
qed

section \<open>A send that fails because the transport is unavailable\<close>

text \<open>
  C1. The working list is \<open>front @ e # rest\<close>: the sends of \<open>front\<close> are answered with
  statuses other than UNAVAILABLE, so \<open>e\<close> comes to the front, and its send is answered
  with UNAVAILABLE. Then the loop, having discarded \<open>front\<close>, logs the failure of \<open>e\<close>
  and ends the pass with one bulk enqueue of \<open>e # rest\<close>, the failed event first and
  the others in their order, onto the end of the queue: it has made no other bulk
  enqueue, it has popped \<open>front\<close> and nothing else, and its calls are those of \<open>front\<close>
  and the one of \<open>e\<close>, none for \<open>rest\<close>.
\<close>

theorem unavailable_requeues_remaining:
  assumes "\<forall>e \<in> set front. consistent e"
    and "\<forall>x \<in> set (replies plugind n front). error_code (snd (snd x)) \<noteq> UNAVAILABLE"
    and "consistent e"
    and "error_code (reply plugind (n + length front) e) = UNAVAILABLE"
  shows "\<exists>t. process_events plugind n (front @ e # rest) c =
             Inr (t, Suc (n + length front),
                  c\<lparr>m_event_queue := m_event_queue c @ e # rest\<rparr>) \<and>
           t = discard_actions plugind n front @
               sent_actions e (reply plugind (n + length front) e) @
               [failed_line e (reply plugind (n + length front) e), EnqueueBulk (e # rest)] \<and>
           bulk_enqueues t = [e # rest] \<and>
           popped t = front \<and>
           calls t = replies plugind n (front @ [e])"
  by (simp add: process_events_front [OF assms(1,2)] process_events_Cons assms(3,4)
      replies_append)

theorem unavailable_requeues_remaining_witness:
  "\<exists>t. process_events (answer_at 1 (status_of UNAVAILABLE) (status_of OK)) 0
          ([example_start] @ example_end # [example_monitor]) (client_with []) =
        Inr (t, 2, client_with [example_end, example_monitor]) \<and>
      t = [Log TRACE SendingStartHook, Call StartHook (StartHookRequest []) (status_of OK),
           Log TRACE (HookEventSent 0), PopFront example_start,
           Log TRACE SendingEndHook, Call EndHook (EndHookRequest []) (status_of UNAVAILABLE),
           Log ERROR (FailedToSendHookEvent 1 '''' 14),
           EnqueueBulk [example_end, example_monitor]] \<and>
      bulk_enqueues t = [[example_end, example_monitor]] \<and>
      popped t = [example_start] \<and>
      calls t = [(StartHook, StartHookRequest [], status_of OK),
                 (EndHook, EndHookRequest [], status_of UNAVAILABLE)]"
  using unavailable_requeues_remaining
    [of "[example_start]" "answer_at 1 (status_of UNAVAILABLE) (status_of OK)" 0
        example_end "[example_monitor]" "client_with []"]
  by (simp add: consistent_def reply_def answer_at_def sent_actions_def failed_line_def
        discard_one_def example_start_def example_end_def example_monitor_def status_of_def
        client_with_def ok_def numeral_2_eq_2)

section \<open>A send that fails for another reason\<close>

text \<open>
  C2. The send of the event at the front is answered with a status that is neither OK
  nor UNAVAILABLE. Then the loop logs one line at error level, with the number of the
  hook type, the message of the status and the number of its code, pops the event and
  goes on with the rest of the working list, the queue as it was. Whatever the rest of
  the pass does, what the pass puts back onto the queue are events that followed the
  dropped one in the working list, not the dropped one.
\<close>

theorem other_error_drops_event:
  assumes "consistent e"
    and "\<not> ok (reply plugind n e)"
    and "error_code (reply plugind n e) \<noteq> UNAVAILABLE"
  shows "process_events plugind n (e # events) c =
           (case process_events plugind (Suc n) events c of
              Inl err \<Rightarrow> Inl err
            | Inr (rest, n', c') \<Rightarrow>
                Inr (sent_actions e (reply plugind n e) @
                     [Log ERROR (FailedToSendHookEvent (size_t (type e))
                        (error_message (reply plugind n e))
                        (code_int (error_code (reply plugind n e)))),
                      PopFront e] @ rest, n', c')) \<and>
         (\<forall>t n' c'. process_events plugind n (e # events) c = Inr (t, n', c') \<longrightarrow>
            (\<exists>k \<le> length events.
               popped t = e # take k events \<and>
               concat (bulk_enqueues t) = drop k events \<and>
               m_event_queue c' = m_event_queue c @ drop k events))"
proof (intro conjI allI impI)
  show "process_events plugind n (e # events) c =
           (case process_events plugind (Suc n) events c of
              Inl err \<Rightarrow> Inl err
            | Inr (rest, n', c') \<Rightarrow>
                Inr (sent_actions e (reply plugind n e) @
                     [Log ERROR (FailedToSendHookEvent (size_t (type e))
                        (error_message (reply plugind n e))
                        (code_int (error_code (reply plugind n e)))),
                      PopFront e] @ rest, n', c'))"
    using assms by (simp add: process_events_Cons failed_line_def split: sum.splits)
next
  fix t n' c'
  assume run: "process_events plugind n (e # events) c = Inr (t, n', c')"
  from process_events_partition [OF run] obtain discarded requeued where
    p: "e # events = discarded @ requeued"
       "t = discard_actions plugind n discarded @
            requeue_actions plugind (n + length discarded) requeued"
       "c' = (if requeued = [] then c else c\<lparr>m_event_queue := m_event_queue c @ requeued\<rparr>)"
       "requeued \<noteq> [] \<longrightarrow>
          error_code (reply plugind (n + length discarded) (hd requeued)) = UNAVAILABLE"
    by blast
  have "discarded \<noteq> []"
  proof
    assume "discarded = []"
    with p(1,4) have "error_code (reply plugind n e) = UNAVAILABLE"
      by (cases requeued) auto
    with assms(3) show False by simp
  qed
  then obtain d where d: "discarded = e # d" "events = d @ requeued"
    using p(1) by (cases discarded) auto
  show "\<exists>k \<le> length events.
               popped t = e # take k events \<and>
               concat (bulk_enqueues t) = drop k events \<and>
               m_event_queue c' = m_event_queue c @ drop k events"
    by (rule exI [of _ "length d"]) (simp add: d p(2,3))
qed

theorem other_error_drops_event_witness:
  "process_events (answer_at 0 (status_of INTERNAL) (status_of OK)) 0
     (example_end # [example_monitor]) (client_with [example_start]) =
   Inr ([Log TRACE SendingEndHook, Call EndHook (EndHookRequest []) (status_of INTERNAL),
         Log ERROR (FailedToSendHookEvent 1 '''' 13), PopFront example_end,
         Log TRACE SendingJobMonitorHook,
         Call JobMonitorHook (JobMonitorHookRequest 7 ''cgroup'') (status_of OK),
         Log TRACE (HookEventSent 2), PopFront example_monitor],
        2, client_with [example_start])"
  using other_error_drops_event
    [of example_end "answer_at 0 (status_of INTERNAL) (status_of OK)" 0
        "[example_monitor]" "client_with [example_start]"]
  by (simp add: consistent_def reply_def answer_at_def sent_actions_def failed_line_def
        example_start_def example_end_def example_monitor_def status_of_def
        client_with_def ok_def numeral_2_eq_2 process_events_Cons)

section \<open>One disposition for every event of the working list\<close>

text \<open>
  C10. On a working list of consistent events the inner loop ends, and the list falls
  into two parts in its order. The events of the first part are discarded one after
  the other: one call each, answered with a status other than UNAVAILABLE, then a line
  at trace level (status OK) or at error level (any other), then the pop. The events of
  the second part, when there are any, go back onto the queue in one bulk enqueue:
  the first of them has had one call, answered with UNAVAILABLE, the others none, and
  none of them is popped. So no event is both put back and discarded or sent again.
\<close>

theorem one_disposition_per_event:
  assumes "\<forall>e \<in> set events. consistent e"
  shows "\<exists>t n' c' discarded requeued.
           process_events plugind n events c = Inr (t, n', c') \<and>
           events = discarded @ requeued \<and>
           t = discard_actions plugind n discarded @
               requeue_actions plugind (n + length discarded) requeued \<and>
           popped t = discarded \<and>
           bulk_enqueues t = (if requeued = [] then [] else [requeued]) \<and>
           m_event_queue c' = m_event_queue c @ requeued \<and>
           calls t = replies plugind n (discarded @ take 1 requeued) \<and>
           (\<forall>x \<in> set (replies plugind n discarded). error_code (snd (snd x)) \<noteq> UNAVAILABLE) \<and>
           (requeued \<noteq> [] \<longrightarrow>
              error_code (reply plugind (n + length discarded) (hd requeued)) = UNAVAILABLE)"
proof -
  from process_events_total [OF assms] obtain t n' c' where
    run: "process_events plugind n events c = Inr (t, n', c')"
    by blast
  from process_events_partition [OF run] obtain discarded requeued where
    p: "events = discarded @ requeued"
       "t = discard_actions plugind n discarded @
            requeue_actions plugind (n + length discarded) requeued"
       "c' = (if requeued = [] then c else c\<lparr>m_event_queue := m_event_queue c @ requeued\<rparr>)"
       "\<forall>x \<in> set (replies plugind n discarded). error_code (snd (snd x)) \<noteq> UNAVAILABLE"
       "requeued \<noteq> [] \<longrightarrow>
          error_code (reply plugind (n + length discarded) (hd requeued)) = UNAVAILABLE"
    by blast
  from p(3) have q: "m_event_queue c' = m_event_queue c @ requeued"
    by simp
  from p(2) have tr: "popped t = discarded"
    "bulk_enqueues t = (if requeued = [] then [] else [requeued])"
    "calls t = replies plugind n (discarded @ take 1 requeued)"
    by (simp_all add: replies_append)
  show ?thesis
    using run p(1,2) tr q p(4,5) by blast
qed

theorem one_disposition_per_event_witness:
  "\<exists>t n' c'.
     process_events (answer_at 1 (status_of UNAVAILABLE) (status_of OK)) 0
       [example_start, example_end, example_monitor] (client_with []) = Inr (t, n', c') \<and>
     popped t = [example_start] \<and>
     bulk_enqueues t = [[example_end, example_monitor]] \<and>
     m_event_queue c' = [example_end, example_monitor] \<and>
     calls t = [(StartHook, StartHookRequest [], status_of OK),
                (EndHook, EndHookRequest [], status_of UNAVAILABLE)]"
  using one_disposition_per_event
    [of "[example_start, example_end, example_monitor]"
        "answer_at 1 (status_of UNAVAILABLE) (status_of OK)" 0 "client_with []"]
  by (simp add: consistent_def reply_def answer_at_def sent_actions_def failed_line_def
        example_start_def example_end_def example_monitor_def status_of_def
        client_with_def ok_def numeral_2_eq_2 process_events_Cons)

section \<open>Dispatch by the type of the event\<close>

text \<open>
  C5. The send function that the loop takes from the table for an event is the one of
  the event's type: \<^verbatim>\<open>SendStartHook_\<close> for START, \<^verbatim>\<open>SendEndHook_\<close> for END,
  \<^verbatim>\<open>SendJobMonitorHook_\<close> for JOB_MONITOR, three different functions. So in a pass
  that does not fail, the call made for the \<open>i\<close>-th event of the working list is a
  call of the method of that event's type: StartHook, EndHook or JobMonitorHook.
\<close>

theorem dispatch_by_type:
  "s_hook_dispatch_funcs ! size_t (type e) =
     (case type e of START \<Rightarrow> SendStartHook | END \<Rightarrow> SendEndHook
      | JOB_MONITOR \<Rightarrow> SendJobMonitorHook) \<and>
   SendStartHook \<noteq> SendEndHook \<and> SendStartHook \<noteq> SendJobMonitorHook \<and>
   SendEndHook \<noteq> SendJobMonitorHook \<and>
   (\<forall>t n' c'. process_events plugind n events c = Inr (t, n', c') \<longrightarrow>
      length (calls t) \<le> length events \<and>
      (\<forall>i < length (calls t).
         fst (calls t ! i) =
           (case type (events ! i) of START \<Rightarrow> StartHook | END \<Rightarrow> EndHook
            | JOB_MONITOR \<Rightarrow> JobMonitorHook)))"
proof (intro conjI allI impI)
  show "s_hook_dispatch_funcs ! size_t (type e) =
     (case type e of START \<Rightarrow> SendStartHook | END \<Rightarrow> SendEndHook
      | JOB_MONITOR \<Rightarrow> SendJobMonitorHook)"
    by (cases "type e") (simp_all add: s_hook_dispatch_funcs_def)
next
  have "SendStartHook (\<lambda>m r. status_of OK) (Some (StartHookRequest [])) \<noteq>
        SendEndHook (\<lambda>m r. status_of OK) (Some (StartHookRequest []))"
    by (simp add: SendStartHook_def SendEndHook_def Let_def)
  then show "SendStartHook \<noteq> SendEndHook"
    by auto
next
  have "SendStartHook (\<lambda>m r. status_of OK) (Some (StartHookRequest [])) \<noteq>
        SendJobMonitorHook (\<lambda>m r. status_of OK) (Some (StartHookRequest []))"
    by (simp add: SendStartHook_def SendJobMonitorHook_def Let_def)
  then show "SendStartHook \<noteq> SendJobMonitorHook"
    by auto
next
  have "SendEndHook (\<lambda>m r. status_of OK) (Some (EndHookRequest [])) \<noteq>
        SendJobMonitorHook (\<lambda>m r. status_of OK) (Some (EndHookRequest []))"
    by (simp add: SendEndHook_def SendJobMonitorHook_def Let_def)
  then show "SendEndHook \<noteq> SendJobMonitorHook"
    by auto
next
  fix t n' c'
  assume run: "process_events plugind n events c = Inr (t, n', c')"
  from process_events_partition [OF run] obtain discarded requeued where
    p: "events = discarded @ requeued"
       "t = discard_actions plugind n discarded @
            requeue_actions plugind (n + length discarded) requeued"
    by blast
  from p(2) have c: "calls t = replies plugind n (discarded @ take 1 requeued)"
    by (simp add: replies_append)
  have pre: "discarded @ take 1 requeued = take (length (calls t)) events"
    by (cases requeued) (simp_all add: p(1) c)
  show le: "length (calls t) \<le> length events"
    by (cases requeued) (simp_all add: p(1) c)
  fix i
  assume i: "i < length (calls t)"
  have "map fst (calls t) = map (\<lambda>e. method_of (type e)) (discarded @ take 1 requeued)"
    by (simp only: c map_fst_replies)
  then have m: "map fst (calls t) =
      map (\<lambda>e. method_of (type e)) (take (length (calls t)) events)"
    by (simp only: pre)
  have "fst (calls t ! i) = map fst (calls t) ! i"
    using i by simp
  also have "\<dots> = method_of (type (take (length (calls t)) events ! i))"
    using i le by (subst m) (simp del: nth_take)
  finally have "fst (calls t ! i) = method_of (type (events ! i))"
    using i by simp
  then show "fst (calls t ! i) =
           (case type (events ! i) of START \<Rightarrow> StartHook | END \<Rightarrow> EndHook
            | JOB_MONITOR \<Rightarrow> JobMonitorHook)"
    by (cases "type (events ! i)") simp_all
qed

theorem dispatch_by_type_witness:
  "s_hook_dispatch_funcs ! size_t (type example_monitor) = SendJobMonitorHook \<and>
   map fst (calls (fst (projr (process_events (answer_all (status_of OK)) 0
      [example_monitor, example_start, example_end] (client_with [])))))
     = [JobMonitorHook, StartHook, EndHook]"
  using dispatch_by_type
    [of example_monitor "answer_all (status_of OK)" 0
        "[example_monitor, example_start, example_end]" "client_with []"]
  by (simp add: consistent_def reply_def answer_all_def sent_actions_def failed_line_def
        example_start_def example_end_def example_monitor_def status_of_def
        client_with_def ok_def process_events_Cons)

section \<open>A pass that finds the transport not connected\<close>

text \<open>
  C7. In a pass whose poll answers not connected, the thread polls, logs that the
  daemon is not connected, sleeps 1000 milliseconds and goes back to the head of the
  loop: it makes no dequeue and no call, and the queue is as it was. The pass after it
  begins, unless the stop flag has been set, with a new poll.
\<close>

theorem not_connected_pass:
  assumes "\<not> m_thread_stop c" and "\<not> connected (envs k)"
  shows "iteration (envs k) plugind n prev c =
           Inr (Continue, not_connected_actions, n, False, c) \<and>
         dequeues not_connected_actions = [] \<and> calls not_connected_actions = [] \<and>
         bulk_enqueues not_connected_actions = [] \<and>
         sleeps not_connected_actions = [1000] \<and>
         last not_connected_actions = SleepFor 1000 \<and>
         AsyncSendThread_loop (Suc fuel) envs plugind k n prev c =
           (case AsyncSendThread_loop fuel envs plugind (Suc k) n False c of
              Inl err \<Rightarrow> Inl err
            | Inr (ctl, t', r) \<Rightarrow> Inr (ctl, not_connected_actions @ t', r)) \<and>
         (\<forall>ctl t' r. iteration (envs (Suc k)) plugind n False c = Inr (ctl, t', r) \<longrightarrow>
            (\<exists>t''. t' = WaitForConnected 3000 (connected (envs (Suc k))) # t''))"
proof -
  have it: "iteration (envs k) plugind n prev c =
              Inr (Continue, not_connected_actions, n, False, c)"
    using iteration_not_connected [OF assms] by (simp add: not_connected_actions_def)
  have next_pass: "\<forall>ctl t' r. iteration (envs (Suc k)) plugind n False c = Inr (ctl, t', r) \<longrightarrow>
              (\<exists>t''. t' = WaitForConnected 3000 (connected (envs (Suc k))) # t'')"
    using iteration_starts_with_poll [OF assms(1)] by blast
  have loop: "AsyncSendThread_loop (Suc fuel) envs plugind k n prev c =
             (case AsyncSendThread_loop fuel envs plugind (Suc k) n False c of
                Inl err \<Rightarrow> Inl err
              | Inr (ctl, t', r) \<Rightarrow> Inr (ctl, not_connected_actions @ t', r))"
    by (simp add: it split: sum.splits prod.splits)
  have quiet: "dequeues not_connected_actions = []" "calls not_connected_actions = []"
    "bulk_enqueues not_connected_actions = []" "sleeps not_connected_actions = [1000]"
    "last not_connected_actions = SleepFor 1000"
    by (simp_all add: not_connected_actions_def)
  show ?thesis
    using it next_pass loop quiet by simp
qed

theorem not_connected_pass_witness:
  "iteration (every_pass disconnected_env 0) (answer_all (status_of OK)) 0 True
     (client_with [example_start]) =
   Inr (Continue, [WaitForConnected 3000 False, Log INFO PlugindIsNotConnected, SleepFor 1000],
        0, False, client_with [example_start]) \<and>
   AsyncSendThread_loop 2 (every_pass disconnected_env) (answer_all (status_of OK)) 0 0 True
     (client_with [example_start]) =
   Inr (Continue, [WaitForConnected 3000 False, Log INFO PlugindIsNotConnected, SleepFor 1000,
                   WaitForConnected 3000 False, Log INFO PlugindIsNotConnected, SleepFor 1000],
        0, False, client_with [example_start])"
  using not_connected_pass
    [of "client_with [example_start]" "every_pass disconnected_env" 0
        "answer_all (status_of OK)" 0 True 1]
  by (simp add: every_pass_def disconnected_env_def client_with_def iteration_def
        numeral_2_eq_2 not_connected_actions_def)

section \<open>The working list holds dequeued events only\<close>

text \<open>
  C9. The bulk dequeue hands over \<open>k\<close> events, at most the \<open>approx_size\<close> asked for and
  possibly fewer. The working list, made of \<open>approx_size\<close> default events before the
  dequeue, is after the second \<^verbatim>\<open>resize\<close> the list of the \<open>k\<close> dequeued events and
  nothing else. So on a queue of consistent events the pass does not fail, and its
  calls send the payloads of the first dequeued events in their order; no call is made
  for a default event, whose payload is null.
\<close>

theorem working_list_is_dequeued:
  assumes "\<not> m_thread_stop c" and "connected env" and "0 < approx env"
    and "\<forall>e \<in> set (m_event_queue c). consistent e"
    and "k = min (approx env) (min (available env) (length (m_event_queue c)))"
  shows "(case try_dequeue_bulk (available env) (approx env) (resize (approx env) [])
                 (m_event_queue c) of
            (events, actual_size, q) \<Rightarrow>
              actual_size = k \<and> resize actual_size events = take k (m_event_queue c)) \<and>
         (\<exists>t n' c' m. iteration env plugind n prev c = Inr (Continue, t, n', True, c') \<and>
            dequeues t = [(approx env, take k (m_event_queue c))] \<and>
            m \<le> k \<and> calls t = replies plugind n (take m (m_event_queue c)) \<and>
            default_event \<notin> set (take m (m_event_queue c)))"
proof
  have k: "k \<le> length (m_event_queue c)"
    using assms(5) by simp
  show "case try_dequeue_bulk (available env) (approx env) (resize (approx env) [])
                 (m_event_queue c) of
            (events, actual_size, q) \<Rightarrow>
              actual_size = k \<and> resize actual_size events = take k (m_event_queue c)"
    by (simp add: try_dequeue_bulk_def Let_def assms(5) [symmetric] working_list [OF k])
  let ?c = "c\<lparr>m_event_queue := drop k (m_event_queue c) @ produced env\<rparr>"
  have cons: "\<forall>e \<in> set (take k (m_event_queue c)). consistent e"
    using assms(4) by (meson in_set_takeD)
  from process_events_total [OF cons] obtain t n' c' where
    run: "process_events plugind n (take k (m_event_queue c)) ?c = Inr (t, n', c')"
    by blast
  from process_events_partition [OF run] obtain discarded requeued where
    p: "take k (m_event_queue c) = discarded @ requeued"
       "t = discard_actions plugind n discarded @
            requeue_actions plugind (n + length discarded) requeued"
    by blast
  let ?m = "length (discarded @ take 1 requeued)"
  have len: "length discarded + length requeued = k"
    using arg_cong [OF p(1), of length] k by simp
  have m: "?m \<le> k"
    using len by simp
  have pre: "discarded @ take 1 requeued = take ?m (m_event_queue c)"
  proof -
    have "discarded @ take 1 requeued = take ?m (discarded @ requeued)"
      by (cases requeued) simp_all
    also have "\<dots> = take ?m (take k (m_event_queue c))"
      by (simp only: p(1))
    also have "\<dots> = take ?m (m_event_queue c)"
      using m by (simp add: min_absorb1)
    finally show ?thesis .
  qed
  have calls: "calls t = replies plugind n (take ?m (m_event_queue c))"
    unfolding pre [symmetric] by (simp add: p(2) replies_append)
  have nd: "default_event \<notin> set (take ?m (m_event_queue c))"
  proof
    assume "default_event \<in> set (take ?m (m_event_queue c))"
    then have "consistent default_event"
      using assms(4) by (meson in_set_takeD)
    then show False
      by (simp add: consistent_def default_event_def)
  qed
  let ?t = "[WaitForConnected 3000 True] @
              (if \<not> prev then [Log INFO PlugindIsConnected] else []) @
              [SizeApprox (approx env), TryDequeueBulk (approx env) (take k (m_event_queue c)),
               Log DEBUG (DequeuedHookEvents k)] @ t"
  have it: "iteration env plugind n prev c = Inr (Continue, ?t, n', True, c')"
    by (simp add: iteration_dequeue [OF assms(1,2,3,5)] run)
  have dq: "dequeues ?t = [(approx env, take k (m_event_queue c))]"
    by (simp add: p(2))
  have cl: "calls ?t = replies plugind n (take ?m (m_event_queue c))"
    using calls by simp
  show "\<exists>t n' c' m. iteration env plugind n prev c = Inr (Continue, t, n', True, c') \<and>
            dequeues t = [(approx env, take k (m_event_queue c))] \<and>
            m \<le> k \<and> calls t = replies plugind n (take m (m_event_queue c)) \<and>
            default_event \<notin> set (take m (m_event_queue c))"
    using it dq m cl nd by blast
qed

theorem working_list_is_dequeued_witness:
  "try_dequeue_bulk 1 3 (resize 3 []) [example_start, example_end] =
     ([example_start, default_event, default_event], 1, [example_end]) \<and>
   resize 1 [example_start, default_event, default_event] = [example_start] \<and>
   iteration (connected_env 3 1) (answer_all (status_of OK)) 0 True
     (client_with [example_start, example_end]) =
   Inr (Continue,
        [WaitForConnected 3000 True, SizeApprox 3, TryDequeueBulk 3 [example_start],
         Log DEBUG (DequeuedHookEvents 1), Log TRACE SendingStartHook,
         Call StartHook (StartHookRequest []) (status_of OK), Log TRACE (HookEventSent 0),
         PopFront example_start],
        1, True, client_with [example_end])"
  using working_list_is_dequeued
    [of "client_with [example_start, example_end]" "connected_env 3 1" 1
        "answer_all (status_of OK)" 0 True]
  by (simp add: connected_env_def client_with_def numeral_3_eq_3 try_dequeue_bulk_def
        resize_def consistent_def example_start_def example_end_def default_event_def
        iteration_def process_events_Cons reply_def answer_all_def status_of_def ok_def
        sent_actions_def)

section \<open>The lines of the log about the connection\<close>

text \<open>
  C3, as the code has it. A pass that runs (the stop flag is not set) and does not fail
  remembers the answer of its poll, and of the two lines about the connection it
  logs: the line that the daemon is connected, once, exactly when the poll answers
  connected and the answer remembered from the pass before is not connected; the line
  that the daemon is not connected, once, whenever the poll answers not connected,
  whatever the pass before has remembered; no line when the poll answers connected
  after a pass that has remembered connected.
\<close>

theorem connection_lines_of_a_pass:
  assumes "\<not> m_thread_stop c"
    and "iteration env plugind n prev c = Inr (ctl, t, n', prev', c')"
  shows "prev' = connected env \<and>
         connection_lines t =
           (if connected env then (if prev then [] else [(INFO, PlugindIsConnected)])
            else [(INFO, PlugindIsNotConnected)])"
proof (cases "connected env")
  case False
  with assms show ?thesis
    by (auto simp: iteration_not_connected connection_lines_def)
next
  case True
  show ?thesis
  proof (cases "approx env = 0")
    case z: True
    with assms True show ?thesis
      by (auto simp: iteration_idle connection_lines_def)
  next
    case False
    then have pos: "0 < approx env" by simp
    obtain k where k: "k = min (approx env) (min (available env) (length (m_event_queue c)))"
      by simp
    from assms(2) obtain t0 where
      run: "process_events plugind n (take k (m_event_queue c))
              (c\<lparr>m_event_queue := drop k (m_event_queue c) @ produced env\<rparr>) = Inr (t0, n', c')"
      and t: "t = [WaitForConnected 3000 True] @
                (if \<not> prev then [Log INFO PlugindIsConnected] else []) @
                [SizeApprox (approx env), TryDequeueBulk (approx env) (take k (m_event_queue c)),
                 Log DEBUG (DequeuedHookEvents k)] @ t0"
      and p: "prev' = True"
      by (auto simp: iteration_dequeue [OF assms(1) True pos k] split: sum.splits)
    have "connection_lines t0 = []"
      by (rule connection_lines_process_events [OF run])
    then show ?thesis
      using True p by (simp add: t) (simp add: connection_lines_def)
  qed
qed

theorem connection_lines_of_a_pass_witness:
  "connection_lines [WaitForConnected 3000 True, Log INFO PlugindIsConnected,
                     SizeApprox 0, SleepFor 100] = [(INFO, PlugindIsConnected)] \<and>
   iteration (connected_env 0 0) (answer_all (status_of OK)) 0 False (client_with []) =
     Inr (Continue, [WaitForConnected 3000 True, Log INFO PlugindIsConnected,
                     SizeApprox 0, SleepFor 100], 0, True, client_with [])"
  using connection_lines_of_a_pass
    [of "client_with []" "connected_env 0 0" "answer_all (status_of OK)" 0 False Continue
        "[WaitForConnected 3000 True, Log INFO PlugindIsConnected, SizeApprox 0, SleepFor 100]"
        0 True "client_with []"]
  by (simp add: connected_env_def client_with_def iteration_def connection_lines_def)

text \<open>
  C3 as the spec states it fails: of two passes in a row whose polls answer not
  connected, the second, in the steady state, logs the line as the first does.
\<close>

theorem steady_not_connected_counterexample:
  "AsyncSendThread 2 (every_pass disconnected_env) (answer_all (status_of OK)) (client_with []) =
     Inr (Continue,
          [WaitForConnected 3000 False, Log INFO PlugindIsNotConnected, SleepFor 1000,
           WaitForConnected 3000 False, Log INFO PlugindIsNotConnected, SleepFor 1000],
          0, False, client_with []) \<and>
   logs [WaitForConnected 3000 False, Log INFO PlugindIsNotConnected, SleepFor 1000,
         WaitForConnected 3000 False, Log INFO PlugindIsNotConnected, SleepFor 1000] =
     [(INFO, PlugindIsNotConnected), (INFO, PlugindIsNotConnected)]"
  by (simp add: AsyncSendThread_def every_pass_def disconnected_env_def client_with_def
        iteration_def numeral_2_eq_2)

section \<open>Shutdown\<close>

text \<open>
  C6. Take any run of the client from its initial state: steps of the producers, of
  the delivery thread and of the destructor, in any order. Where the destructor's join
  returns, the store of the stop flag has come before it, the thread is not running,
  and no step after it is a pass of the delivery loop: no dequeue and no call follows,
  whatever the queue holds. The join returns when the thread has already finished. A
  running thread that finds the stop flag set ends with that pass, which makes no dequeue
  and no call.
\<close>

theorem shutdown_joins_the_thread:
  assumes "steps initial ls s"
  shows "(\<forall>a b. ls = a @ DtorJoin # b \<longrightarrow>
            (\<exists>l \<in> set a. is_store l) \<and>
            (\<forall>l \<in> set b. \<not> is_pass l \<and> dequeues (actions_of l) = [] \<and> calls (actions_of l) = [])) \<and>
         (dtor s = Returned \<longrightarrow>
            m_thread_stop (client s) \<and> (thread s = NotStarted \<or> thread s = Finished) \<and>
            (\<forall>l s'. step s l s' \<longrightarrow> \<not> is_pass l)) \<and>
         (dtor s = Joining \<and> thread s = Finished \<longrightarrow> step s DtorJoin (s\<lparr>dtor := Returned\<rparr>)) \<and>
         (\<forall>n prev t s'. m_thread_stop (client s) \<and> thread s = Running n prev \<and>
            step s (Pass t) s' \<longrightarrow> t = [] \<and> thread s' = Finished \<and> client s' = client s)"
proof (intro conjI allI impI)
  fix a b
  assume ls: "ls = a @ DtorJoin # b"
  with assms obtain s1 s2 where
    a: "steps initial a s1" and j: "step s1 DtorJoin s2" and b: "steps s2 b s"
    by (auto simp: steps_append steps_Cons)
  from j have d1: "dtor s1 = Joining" and d2: "dtor s2 = Returned"
    by (auto elim: step.cases)
  from steps_store_first [OF a] d1 show "\<exists>l \<in> set a. is_store l"
    by (simp add: initial_def)
  from steps_shutdown_inv [OF a shutdown_inv_initial] j have "shutdown_inv s2"
    by (rule step_shutdown_inv [rotated])
  with d2 have th: "thread s2 = NotStarted \<or> thread s2 = Finished"
    by (simp add: shutdown_inv_def)
  from steps_after_return [OF b d2 th]
  show "\<forall>l \<in> set b. \<not> is_pass l \<and> dequeues (actions_of l) = [] \<and> calls (actions_of l) = []"
    by simp
next
  assume r: "dtor s = Returned"
  from steps_shutdown_inv [OF assms shutdown_inv_initial] have inv: "shutdown_inv s" .
  with r show "m_thread_stop (client s)"
    by (simp add: shutdown_inv_def)
  from inv r show th: "thread s = NotStarted \<or> thread s = Finished"
    by (simp add: shutdown_inv_def)
  fix l s'
  assume "step s l s'"
  from step_after_return [OF this r th] show "\<not> is_pass l"
    by simp
next
  assume "dtor s = Joining \<and> thread s = Finished"
  then show "step s DtorJoin (s\<lparr>dtor := Returned\<rparr>)"
    by (simp add: step.join)
next
  fix n prev t s'
  assume h: "m_thread_stop (client s) \<and> thread s = Running n prev \<and> step s (Pass t) s'"
  then have "step s (Pass t) s'" by simp
  then show "t = []" and "thread s' = Finished" and "client s' = client s"
    using h by (auto elim!: step.cases simp: iteration_stopped)
qed

theorem shutdown_joins_the_thread_witness:
  "steps initial [Init, Produced, DtorStore [Log TRACE PluginClientIsEnding], Pass [], DtorJoin]
     \<lparr>client = \<lparr>m_thread_stop = True, m_event_queue = [example_start]\<rparr>,
      thread = Finished, dtor = Returned\<rparr> \<and>
   is_store (DtorStore [Log TRACE PluginClientIsEnding]) \<and>
   \<not> (\<exists>l s'. step \<lparr>client = \<lparr>m_thread_stop = True, m_event_queue = [example_start]\<rparr>,
                    thread = Finished, dtor = Returned\<rparr> l s' \<and> is_pass l)"
proof -
  let ?s1 = "\<lparr>client = \<lparr>m_thread_stop = False, m_event_queue = []\<rparr>,
              thread = Running 0 False, dtor = NotCalled\<rparr>"
  let ?s2 = "\<lparr>client = \<lparr>m_thread_stop = False, m_event_queue = [example_start]\<rparr>,
              thread = Running 0 False, dtor = NotCalled\<rparr>"
  let ?s3 = "\<lparr>client = \<lparr>m_thread_stop = True, m_event_queue = [example_start]\<rparr>,
              thread = Running 0 False, dtor = Joining\<rparr>"
  let ?s4 = "\<lparr>client = \<lparr>m_thread_stop = True, m_event_queue = [example_start]\<rparr>,
              thread = Finished, dtor = Joining\<rparr>"
  let ?s5 = "\<lparr>client = \<lparr>m_thread_stop = True, m_event_queue = [example_start]\<rparr>,
              thread = Finished, dtor = Returned\<rparr>"
  have 1: "step initial Init ?s1"
    using step.init [of initial] by (simp add: initial_def)
  have 2: "step ?s1 Produced ?s2"
    using step.start_hook [of ?s1 "[]"]
    by (simp add: StartHookAsync_def enqueue_def example_start_def)
  have 3: "step ?s2 (DtorStore [Log TRACE PluginClientIsEnding]) ?s3"
    using step.store [of ?s2] by simp
  have 4: "step ?s3 (Pass []) ?s4"
    using step.pass [of ?s3 0 False disconnected_env "answer_all (status_of OK)" Break "[]" 0 False
        "\<lparr>m_thread_stop = True, m_event_queue = [example_start]\<rparr>"]
    by (simp add: iteration_stopped disconnected_env_def)
  have 5: "step ?s4 DtorJoin ?s5"
    using step.join [of ?s4] by simp
  have run: "steps initial
      [Init, Produced, DtorStore [Log TRACE PluginClientIsEnding], Pass [], DtorJoin] ?s5"
    using 1 2 3 4 5 by (blast intro: steps.intros)
  from shutdown_joins_the_thread [OF run]
  have "\<forall>l s'. step ?s5 l s' \<longrightarrow> \<not> is_pass l"
    by simp
  then have "\<not> (\<exists>l s'. step ?s5 l s' \<and> is_pass l)"
    by blast
  with run show ?thesis
    by simp
qed

section \<open>Delivery after an outage\<close>



end
